theory Spec2Isabelle
  imports Complex_Main "HOL-Library.Multiset" "HOL-Library.Sublist"
begin

section \<open>Decoded JSON and the Python operations the crawler applies to it\<close>

text \<open>
  \<open>response.json()\<close> yields \<open>None\<close>, a bool, a number, a string, a list or a dictionary.
  A dictionary is the association list of its items in order; a key has its first
  binding. Numbers are integers here (epoch seconds, scores, counts): fractions of a
  second are not modelled.
\<close>

datatype json =
    JNull
  | JBool bool
  | JNum int
  | JStr string
  | JList "json list"
  | JDict "(string \<times> json) list"

datatype exn = KeyError | TypeError | AttributeError | IndexError | OverflowError | RecursionError

text \<open>Truth value of an object in a condition (\<open>if x\<close>, \<open>not x\<close>, \<open>and\<close>).\<close>

fun truthy :: "json \<Rightarrow> bool" where
  "truthy JNull = False"
| "truthy (JBool b) = b"
| "truthy (JNum n) = (n \<noteq> 0)"
| "truthy (JStr s) = (s \<noteq> [])"
| "truthy (JList xs) = (xs \<noteq> [])"
| "truthy (JDict kvs) = (kvs \<noteq> [])"

text \<open>\<open>x[k]\<close> with a string key: only a dictionary can answer; a missing key raises
  KeyError, every other object raises TypeError.\<close>

fun py_getitem :: "json \<Rightarrow> string \<Rightarrow> exn + json" where
  "py_getitem (JDict kvs) k = (case map_of kvs k of None \<Rightarrow> Inl KeyError | Some v \<Rightarrow> Inr v)"
| "py_getitem _ k = Inl TypeError"

text \<open>\<open>x.get(k, default)\<close>: only a dictionary has the method.\<close>

fun py_get :: "json \<Rightarrow> string \<Rightarrow> json \<Rightarrow> exn + json" where
  "py_get (JDict kvs) k dflt = Inr (case map_of kvs k of None \<Rightarrow> dflt | Some v \<Rightarrow> v)"
| "py_get _ k dflt = Inl AttributeError"

fun is_substring :: "string \<Rightarrow> string \<Rightarrow> bool" where
  "is_substring k [] = (k = [])"
| "is_substring k (c # cs) = (take (length k) (c # cs) = k \<or> is_substring k cs)"

text \<open>\<open>k in x\<close> for a string \<open>k\<close>: key membership in a dictionary, element membership in
  a list, substring test in a string, TypeError otherwise.\<close>

fun py_contains :: "string \<Rightarrow> json \<Rightarrow> exn + bool" where
  "py_contains k (JDict kvs) = Inr (map_of kvs k \<noteq> None)"
| "py_contains k (JList xs) = Inr (JStr k \<in> set xs)"
| "py_contains k (JStr s) = Inr (is_substring k s)"
| "py_contains k _ = Inl TypeError"

fun py_len :: "json \<Rightarrow> exn + nat" where
  "py_len (JList xs) = Inr (length xs)"
| "py_len (JDict kvs) = Inr (length kvs)"
| "py_len (JStr s) = Inr (length s)"
| "py_len _ = Inl TypeError"

text \<open>\<open>x[1]\<close>: the second element of a list or string; a decoded dictionary has string
  keys only, so the integer key is missing.\<close>

fun py_index1 :: "json \<Rightarrow> exn + json" where
  "py_index1 (JList xs) = (if 1 < length xs then Inr (xs ! 1) else Inl IndexError)"
| "py_index1 (JStr s) = (if 1 < length s then Inr (JStr [s ! 1]) else Inl IndexError)"
| "py_index1 (JDict kvs) = Inl KeyError"
| "py_index1 _ = Inl TypeError"

text \<open>The items a \<open>for\<close> loop visits: the elements of a list, the keys of a dictionary,
  the one-character strings of a string.\<close>

fun py_iter :: "json \<Rightarrow> exn + json list" where
  "py_iter (JList xs) = Inr xs"
| "py_iter (JDict kvs) = Inr (map (\<lambda>kv. JStr (fst kv)) kvs)"
| "py_iter (JStr s) = Inr (map (\<lambda>c. JStr [c]) s)"
| "py_iter _ = Inl TypeError"

text \<open>\<open>x > 0\<close>: numbers and bools compare with an integer, other objects raise.\<close>

fun py_gt0 :: "json \<Rightarrow> exn + bool" where
  "py_gt0 (JNum n) = Inr (0 < n)"
| "py_gt0 (JBool b) = Inr b"
| "py_gt0 _ = Inl TypeError"

fun is_dict :: "json \<Rightarrow> bool" where
  "is_dict (JDict kvs) = True"
| "is_dict _ = False"

text \<open>Sequencing of operations that may raise: the first exception ends the chain.
  \<open>raise_or\<close> is the same inside code that carries a state: the exception leaves the
  state as it was when it was raised.\<close>

definition then_exn :: "exn + 'a \<Rightarrow> ('a \<Rightarrow> exn + 'b) \<Rightarrow> exn + 'b" where
  "then_exn r k = (case r of Inl e \<Rightarrow> Inl e | Inr x \<Rightarrow> k x)"

definition raise_or :: "exn + 'a \<Rightarrow> 's \<Rightarrow> ('a \<Rightarrow> (exn + 'b) \<times> 's) \<Rightarrow> (exn + 'b) \<times> 's" where
  "raise_or r s k = (case r of Inl e \<Rightarrow> (Inl e, s) | Inr x \<Rightarrow> k x)"

text \<open>The condition \<open>k in x and x[k]\<close>.\<close>

definition has_truthy :: "string \<Rightarrow> json \<Rightarrow> exn + bool" where
  "has_truthy k x =
     then_exn (py_contains k x) (\<lambda>present.
       if \<not> present then Inr False
       else then_exn (py_getitem x k) (\<lambda>v. Inr (truthy v)))"

section \<open>The crawler (reddit_crawler.py)\<close>

subsection \<open>Configuration, environment and state\<close>

text \<open>
  A naive \<open>datetime\<close> is its number of seconds since 1970-01-01 00:00:00 on the local
  calendar, a calendar date its number of days since 1970-01-01.
  \<open>datetime.strptime(s, '%d/%m/%Y')\<close> is the midnight that starts the day.
\<close>

definition strptime_dmy :: "int \<Rightarrow> int" where
  "strptime_dmy day = day * 86400"

definition date_of :: "int \<Rightarrow> int" where
  "date_of t = t div 86400"

record config =
  brand :: string
  product :: string
  start_date :: int
  end_date :: int
  subreddits :: "string list"
  limit :: int
  request_delay :: nat

text \<open>\<open>RedditCrawler.__init__\<close>, from the values of the configuration file.\<close>

definition new_crawler :: "string \<Rightarrow> string \<Rightarrow> int \<Rightarrow> int \<Rightarrow> string list \<Rightarrow> int \<Rightarrow> config" where
  "new_crawler b p start_day end_day subs per_forum =
     \<lparr>brand = b, product = p, start_date = strptime_dmy start_day,
      end_date = strptime_dmy end_day, subreddits = subs, limit = per_forum, request_delay = 2\<rparr>"

text \<open>
  The three URLs the crawler builds:
  \<open>SearchAll\<close> is \<open>https://www.reddit.com/search.json\<close>,
  \<open>SearchIn name\<close> is \<open>https://www.reddit.com/r/{name}/search.json\<close>, and
  \<open>CommentsOf p\<close> is \<open>https://www.reddit.com{p}.json\<close> for the permalink object \<open>p\<close>.
\<close>

datatype url = SearchAll | SearchIn string | CommentsOf json

record params =
  param_q :: string
  param_sort :: string
  param_limit :: nat
  param_restrict_sr :: string
  param_after :: "json option"

text \<open>
  What \<open>requests.get\<close>, \<open>raise_for_status\<close> and \<open>response.json()\<close> can do:
  \<open>RequestFailed\<close> is a \<open>RequestException\<close> from the transfer or from an error status,
  \<open>JsonBody j\<close> a good status with a body that decodes to \<open>j\<close>, and \<open>BadBody\<close> a good
  status whose body does not decode (a \<open>RequestException\<close> as well).
\<close>

datatype response = RequestFailed | JsonBody json | BadBody

datatype msg =
    SearchQuery string
  | TimeRange int int
  | Searching string
  | SearchError string exn
  | FoundPosts nat
  | CollectedComments nat
  | RequestFailedMsg
  | NoData
  | NoMorePosts
  | LastPage
  | CommentsError exn

datatype event = Get url "params option" | Sleep nat | Print msg

text \<open>
  The environment of a run: the upstream server (a state \<open>'w\<close> of its own and its answer
  to each request), the local time zone (\<open>utcoffset t\<close> is the offset in force at
  instant \<open>t\<close>), the timestamps the platform can convert, and the number of nested calls
  the interpreter still allows when the comment walker is entered.
\<close>

record 'w env =
  respond :: "'w \<Rightarrow> url \<times> params option \<Rightarrow> response \<times> 'w"
  utcoffset :: "int \<Rightarrow> int"
  ts_ok :: "int \<Rightarrow> bool"
  frames :: nat

record post_info =
  pi_id :: json
  pi_title :: json
  pi_selftext :: json
  pi_author :: json
  pi_subreddit :: json
  pi_created_utc :: json
  pi_created_date :: int
  pi_score :: json
  pi_upvote_ratio :: json
  pi_num_comments :: json
  pi_url :: json
  pi_permalink :: json

record comment_info =
  ci_id :: json
  ci_post_id :: json
  ci_body :: json
  ci_author :: json
  ci_subreddit :: json
  ci_created_utc :: json
  ci_created_date :: int
  ci_score :: json
  ci_permalink :: json

record 'w state =
  posts_data :: "post_info list"
  comments_data :: "comment_info list"
  world :: 'w
  trace :: "event list"

definition emit :: "event \<Rightarrow> 'w state \<Rightarrow> 'w state" where
  "emit ev s = s\<lparr>trace := trace s @ [ev]\<rparr>"

subsection \<open>Date window\<close>

text \<open>\<open>datetime.fromtimestamp(x)\<close>: a number (or bool) inside the platform's range
  becomes local time; other objects raise TypeError.\<close>

fun as_timestamp :: "json \<Rightarrow> int option" where
  "as_timestamp (JNum n) = Some n"
| "as_timestamp (JBool b) = Some (if b then 1 else 0)"
| "as_timestamp _ = None"

definition fromtimestamp :: "'w env \<Rightarrow> json \<Rightarrow> exn + int" where
  "fromtimestamp env x =
     (case as_timestamp x of
        None \<Rightarrow> Inl TypeError
      | Some t \<Rightarrow> if ts_ok env t then Inr (t + utcoffset env t) else Inl OverflowError)"

definition is_in_date_range :: "'w env \<Rightarrow> config \<Rightarrow> json \<Rightarrow> exn + bool" where
  "is_in_date_range env cfg timestamp =
     then_exn (fromtimestamp env timestamp) (\<lambda>post_date.
       Inr (start_date cfg \<le> post_date \<and> post_date \<le> end_date cfg))"

subsection \<open>Fetcher\<close>

definition make_request :: "'w env \<Rightarrow> config \<Rightarrow> url \<Rightarrow> params option \<Rightarrow> 'w state \<Rightarrow> json \<times> 'w state" where
  "make_request env cfg u ps s =
     (let (resp, w) = respond env (world s) (u, ps);
          s1 = emit (Get u ps) (s\<lparr>world := w\<rparr>)
      in case resp of
           RequestFailed \<Rightarrow> (JNull, emit (Print RequestFailedMsg) s1)
         | JsonBody j \<Rightarrow> (j, emit (Sleep (request_delay cfg)) s1)
         | BadBody \<Rightarrow> (JNull, emit (Print RequestFailedMsg) (emit (Sleep (request_delay cfg)) s1)))"

subsection \<open>Comment tree walker\<close>

definition comment_info_of :: "'w env \<Rightarrow> json \<Rightarrow> json \<Rightarrow> json \<Rightarrow> exn + comment_info" where
  "comment_info_of env post_id subreddit comment =
     then_exn (py_getitem comment ''id'') (\<lambda>cid.
     then_exn (py_get comment ''body'' (JStr [])) (\<lambda>body.
     then_exn (py_get comment ''author'' (JStr ''[deleted]'')) (\<lambda>author.
     then_exn (py_getitem comment ''created_utc'') (\<lambda>created.
     then_exn (fromtimestamp env created) (\<lambda>created_date.
     then_exn (py_get comment ''score'' (JNum 0)) (\<lambda>score.
     then_exn (py_get comment ''permalink'' (JStr [])) (\<lambda>permalink.
       Inr \<lparr>ci_id = cid, ci_post_id = post_id, ci_body = body, ci_author = author,
            ci_subreddit = subreddit, ci_created_utc = created,
            ci_created_date = created_date, ci_score = score,
            ci_permalink = permalink\<rparr>)))))))"

text \<open>Lines 212--227: a node with a non-empty body is turned into a record, and the
  record is appended when its timestamp is in the window.\<close>

definition collect_comment ::
  "'w env \<Rightarrow> config \<Rightarrow> json \<Rightarrow> json \<Rightarrow> json \<Rightarrow> 'w state \<Rightarrow> (exn + unit) \<times> 'w state" where
  "collect_comment env cfg comment post_id subreddit s =
     raise_or (has_truthy ''body'' comment) s (\<lambda>has_body.
       if \<not> has_body then (Inr (), s)
       else raise_or (comment_info_of env post_id subreddit comment) s (\<lambda>info.
            raise_or (py_getitem comment ''created_utc'') s (\<lambda>created.
            raise_or (is_in_date_range env cfg created) s (\<lambda>inside.
              if inside then (Inr (), s\<lparr>comments_data := comments_data s @ [info]\<rparr>)
              else (Inr (), s)))))"

text \<open>Lines 230--232: the reply list to descend into, if any.\<close>

definition replies_children :: "json \<Rightarrow> exn + json option" where
  "replies_children comment =
     then_exn (has_truthy ''replies'' comment) (\<lambda>has_replies.
       if \<not> has_replies then Inr None
       else then_exn (py_getitem comment ''replies'') (\<lambda>replies.
         if \<not> is_dict replies then Inr None
         else then_exn (py_contains ''data'' replies) (\<lambda>has_data.
           if \<not> has_data then Inr None
           else then_exn (py_getitem replies ''data'') (\<lambda>listing.
                then_exn (py_get listing ''children'' (JList [])) (\<lambda>children.
                  Inr (Some children))))))"

fun walk ::
  "'w env \<Rightarrow> config \<Rightarrow> nat \<Rightarrow> json list \<Rightarrow> json \<Rightarrow> json \<Rightarrow> 'w state \<Rightarrow> (exn + unit) \<times> 'w state" where
  "walk env cfg d [] post_id subreddit s = (Inr (), s)"
| "walk env cfg d (comment_data # rest) post_id subreddit s =
     raise_or (py_getitem comment_data ''kind'') s (\<lambda>kind.
       if kind \<noteq> JStr ''t1'' then walk env cfg d rest post_id subreddit s
       else raise_or (py_getitem comment_data ''data'') s (\<lambda>comment.
         case collect_comment env cfg comment post_id subreddit s of
           (Inl e, s1) \<Rightarrow> (Inl e, s1)
         | (Inr u, s1) \<Rightarrow>
             raise_or (replies_children comment) s1 (\<lambda>children.
               case children of
                 None \<Rightarrow> walk env cfg d rest post_id subreddit s1
               | Some ch \<Rightarrow>
                   (case d of
                      0 \<Rightarrow> (Inl RecursionError, s1)
                    | Suc d' \<Rightarrow>
                        raise_or (py_iter ch) s1 (\<lambda>kids.
                          case walk env cfg d' kids post_id subreddit s1 of
                            (Inl e, s2) \<Rightarrow> (Inl e, s2)
                          | (Inr u, s2) \<Rightarrow> walk env cfg d rest post_id subreddit s2)))))"

text \<open>\<open>_extract_comments_recursive\<close>: entering the function takes one of the frames the
  interpreter has left (RecursionError when none is left), then the loop runs over
  the items of the argument. \<open>walk d\<close> is that loop with \<open>d\<close> frames left for the
  calls it makes itself.\<close>

definition extract_comments_recursive ::
  "'w env \<Rightarrow> config \<Rightarrow> nat \<Rightarrow> json \<Rightarrow> json \<Rightarrow> json \<Rightarrow> 'w state \<Rightarrow> (exn + unit) \<times> 'w state" where
  "extract_comments_recursive env cfg fr comments_list post_id subreddit s =
     (case fr of
        0 \<Rightarrow> (Inl RecursionError, s)
      | Suc d \<Rightarrow>
          raise_or (py_iter comments_list) s (\<lambda>items.
            walk env cfg d items post_id subreddit s))"

subsection \<open>Comment fetch\<close>

text \<open>Lines 185--189: nothing to do for a falsy answer or one shorter than two items;
  otherwise the listing is \<open>data[1]['data']['children']\<close>.\<close>

definition comments_listing :: "json \<Rightarrow> exn + json option" where
  "comments_listing data =
     (if \<not> truthy data then Inr None
      else then_exn (py_len data) (\<lambda>n.
        if n < 2 then Inr None
        else then_exn (py_index1 data) (\<lambda>second.
             then_exn (py_getitem second ''data'') (\<lambda>listing.
             then_exn (py_getitem listing ''children'') (\<lambda>children.
               Inr (Some children))))))"

text \<open>\<open>_fetch_comments\<close> catches every exception of its body and prints it, so it
  returns normally in all cases.\<close>

definition fetch_comments :: "'w env \<Rightarrow> config \<Rightarrow> json \<Rightarrow> json \<Rightarrow> json \<Rightarrow> 'w state \<Rightarrow> 'w state" where
  "fetch_comments env cfg permalink post_id subreddit s =
     (let (data, s1) = make_request env cfg (CommentsOf permalink) None s
      in case comments_listing data of
           Inl e \<Rightarrow> emit (Print (CommentsError e)) s1
         | Inr None \<Rightarrow> s1
         | Inr (Some listing) \<Rightarrow>
             (case extract_comments_recursive env cfg (frames env) listing post_id subreddit s1 of
                (Inl e, s2) \<Rightarrow> emit (Print (CommentsError e)) s2
              | (Inr u, s2) \<Rightarrow> s2))"

subsection \<open>Searching one forum\<close>

definition post_info_of :: "'w env \<Rightarrow> json \<Rightarrow> exn + post_info" where
  "post_info_of env post =
     then_exn (py_getitem post ''id'') (\<lambda>pid.
     then_exn (py_get post ''title'' (JStr [])) (\<lambda>title.
     then_exn (py_get post ''selftext'' (JStr [])) (\<lambda>selftext.
     then_exn (py_get post ''author'' (JStr ''[deleted]'')) (\<lambda>author.
     then_exn (py_get post ''subreddit'' (JStr [])) (\<lambda>subreddit.
     then_exn (py_getitem post ''created_utc'') (\<lambda>created.
     then_exn (fromtimestamp env created) (\<lambda>created_date.
     then_exn (py_get post ''score'' (JNum 0)) (\<lambda>score.
     then_exn (py_get post ''upvote_ratio'' (JNum 0)) (\<lambda>upvote_ratio.
     then_exn (py_get post ''num_comments'' (JNum 0)) (\<lambda>num_comments.
     then_exn (py_get post ''url'' (JStr [])) (\<lambda>link.
     then_exn (py_get post ''permalink'' (JStr [])) (\<lambda>permalink.
       Inr \<lparr>pi_id = pid, pi_title = title, pi_selftext = selftext, pi_author = author,
            pi_subreddit = subreddit, pi_created_utc = created,
            pi_created_date = created_date, pi_score = score,
            pi_upvote_ratio = upvote_ratio, pi_num_comments = num_comments,
            pi_url = link, pi_permalink = permalink\<rparr>))))))))))))"

text \<open>Lines 133--161, the body of the loop over the posts of a page once the limit
  test has passed; the result is the new value of \<open>collected_count\<close>.\<close>

definition process_post ::
  "'w env \<Rightarrow> config \<Rightarrow> json \<Rightarrow> int \<Rightarrow> 'w state \<Rightarrow> (exn + int) \<times> 'w state" where
  "process_post env cfg post_data collected_count s =
     raise_or (py_getitem post_data ''data'') s (\<lambda>post.
     raise_or (py_getitem post ''created_utc'') s (\<lambda>created.
     raise_or (is_in_date_range env cfg created) s (\<lambda>inside.
       if \<not> inside then (Inr collected_count, s)
       else raise_or (post_info_of env post) s (\<lambda>info.
         let s1 = s\<lparr>posts_data := posts_data s @ [info]\<rparr> in
         raise_or (py_getitem post ''num_comments'') s1 (\<lambda>num_comments.
         raise_or (py_gt0 num_comments) s1 (\<lambda>has_comments.
           if \<not> has_comments then (Inr (collected_count + 1), s1)
           else raise_or (py_getitem post ''permalink'') s1 (\<lambda>permalink.
                raise_or (py_getitem post ''id'') s1 (\<lambda>pid.
                raise_or (py_get post ''subreddit'' (JStr [])) s1 (\<lambda>subreddit.
                  (Inr (collected_count + 1),
                   fetch_comments env cfg permalink pid subreddit s1))))))))))"

fun process_posts ::
  "'w env \<Rightarrow> config \<Rightarrow> json list \<Rightarrow> int \<Rightarrow> 'w state \<Rightarrow> (exn + int) \<times> 'w state" where
  "process_posts env cfg [] collected_count s = (Inr collected_count, s)"
| "process_posts env cfg (post_data # rest) collected_count s =
     (if collected_count \<ge> limit cfg then (Inr collected_count, s)
      else case process_post env cfg post_data collected_count s of
             (Inl e, s1) \<Rightarrow> (Inl e, s1)
           | (Inr c, s1) \<Rightarrow> process_posts env cfg rest c s1)"

text \<open>Lines 118--122: \<open>None\<close> when the answer is falsy or has no \<open>data\<close>; otherwise the
  listing \<open>data['data']\<close> and its \<open>children\<close>.\<close>

definition page_of :: "json \<Rightarrow> exn + (json \<times> json) option" where
  "page_of data =
     (if \<not> truthy data then Inr None
      else then_exn (py_contains ''data'' data) (\<lambda>has_data.
        if \<not> has_data then Inr None
        else then_exn (py_getitem data ''data'') (\<lambda>listing.
             then_exn (py_get listing ''children'' (JList [])) (\<lambda>posts.
               Inr (Some (listing, posts))))))"

text \<open>
  The \<open>while\<close> loop of \<open>_search_subreddit\<close>. Nothing bounds the number of pages a
  server can serve (each page may hold only posts outside the window and a further
  cursor), so the loop takes the number of requests it may still make; the result is
  \<open>None\<close> when that number does not suffice.
\<close>

fun search_pages ::
  "nat \<Rightarrow> 'w env \<Rightarrow> config \<Rightarrow> url \<Rightarrow> params \<Rightarrow> int \<Rightarrow> json \<Rightarrow> 'w state
     \<Rightarrow> ((exn + unit) \<times> 'w state) option" where
  "search_pages 0 env cfg base_url ps collected_count cursor s =
     (if \<not> collected_count < limit cfg then Some (Inr (), s) else None)"
| "search_pages (Suc n) env cfg base_url ps collected_count cursor s =
     (if \<not> collected_count < limit cfg then Some (Inr (), s)
      else
        let ps1 = (if truthy cursor then ps\<lparr>param_after := Some cursor\<rparr> else ps);
            (data, s1) = make_request env cfg base_url (Some ps1) s
        in case page_of data of
             Inl e \<Rightarrow> Some (Inl e, s1)
           | Inr None \<Rightarrow> Some (Inr (), emit (Print NoData) s1)
           | Inr (Some (listing, posts)) \<Rightarrow>
               if \<not> truthy posts then Some (Inr (), emit (Print NoMorePosts) s1)
               else
                 (case py_iter posts of
                    Inl e \<Rightarrow> Some (Inl e, s1)
                  | Inr items \<Rightarrow>
                      (case process_posts env cfg items collected_count s1 of
                         (Inl e, s2) \<Rightarrow> Some (Inl e, s2)
                       | (Inr c, s2) \<Rightarrow>
                           (case py_get listing ''after'' JNull of
                              Inl e \<Rightarrow> Some (Inl e, s2)
                            | Inr next_cursor \<Rightarrow>
                                if \<not> truthy next_cursor
                                then Some (Inr (), emit (Print LastPage) s2)
                                else search_pages n env cfg base_url ps1 c next_cursor s2))))"

definition lower_char :: "char \<Rightarrow> char" where
  "lower_char c =
     (if 65 \<le> (of_char c :: nat) \<and> (of_char c :: nat) \<le> 90
      then char_of (of_char c + 32 :: nat) else c)"

definition lower :: "string \<Rightarrow> string" where
  "lower s = map lower_char s"

definition search_subreddit ::
  "nat \<Rightarrow> 'w env \<Rightarrow> config \<Rightarrow> string \<Rightarrow> string \<Rightarrow> 'w state \<Rightarrow> ((exn + unit) \<times> 'w state) option" where
  "search_subreddit n env cfg subreddit_name query s =
     (let base_url = (if lower subreddit_name = ''all'' then SearchAll
                      else SearchIn subreddit_name);
          ps = \<lparr>param_q = query, param_sort = ''new'', param_limit = 100,
                param_restrict_sr = (if lower subreddit_name \<noteq> ''all'' then ''on'' else ''off''),
                param_after = None\<rparr>
      in search_pages n env cfg base_url ps 0 JNull s)"

subsection \<open>Orchestrator\<close>

text \<open>The loop of \<open>search_posts\<close> over the configured forums: an exception of one
  forum's search is printed and the loop goes on with the next forum.\<close>

fun search_forums ::
  "nat \<Rightarrow> 'w env \<Rightarrow> config \<Rightarrow> string list \<Rightarrow> string \<Rightarrow> 'w state \<Rightarrow> 'w state option" where
  "search_forums n env cfg [] query s = Some s"
| "search_forums n env cfg (subreddit_name # rest) query s =
     (case search_subreddit n env cfg subreddit_name query
             (emit (Print (Searching subreddit_name)) s) of
        None \<Rightarrow> None
      | Some (Inl e, s1) \<Rightarrow>
          search_forums n env cfg rest query (emit (Print (SearchError subreddit_name e)) s1)
      | Some (Inr u, s1) \<Rightarrow> search_forums n env cfg rest query s1)"

definition search_posts :: "nat \<Rightarrow> 'w env \<Rightarrow> config \<Rightarrow> 'w state \<Rightarrow> 'w state option" where
  "search_posts n env cfg s =
     (let search_query = brand cfg @ '' '' @ product cfg;
          s0 = emit (Print (TimeRange (start_date cfg) (end_date cfg)))
                 (emit (Print (SearchQuery search_query)) s)
      in case search_forums n env cfg (subreddits cfg) search_query s0 of
           None \<Rightarrow> None
         | Some s1 \<Rightarrow>
             Some (emit (Print (CollectedComments (length (comments_data s1))))
                    (emit (Print (FoundPosts (length (posts_data s1)))) s1)))"

definition new_state :: "'w \<Rightarrow> 'w state" where
  "new_state w = \<lparr>posts_data = [], comments_data = [], world = w, trace = []\<rparr>"

section \<open>Aggregation stage (data_analyzer.py)\<close>

text \<open>
  The analyzer receives the two lists of dictionaries the crawler produced and loads
  them into two pandas frames. The columns the analyzer reads are typed here the way
  the platform fills them: \<open>author\<close>, \<open>subreddit\<close>, \<open>title\<close> and \<open>permalink\<close> are
  strings, \<open>score\<close> and \<open>num_comments\<close> are integers, and \<open>created_date\<close> is the local
  naive date-time the crawler formatted, kept as seconds since 1970-01-01 00:00:00
  (its calendar date is the quotient by 86400).
\<close>

record post_row =
  p_id :: string
  p_title :: string
  p_selftext :: string
  p_author :: string
  p_subreddit :: string
  p_created_date :: int
  p_score :: int
  p_num_comments :: int
  p_permalink :: string

record comment_row =
  c_id :: string
  c_post_id :: string
  c_body :: string
  c_author :: string
  c_subreddit :: string
  c_created_date :: int
  c_score :: int
  c_permalink :: string

text \<open>
  A frame is its rows plus the \<open>date\<close> column that \<open>get_time_distribution\<close> adds to
  the frame it reads (\<open>self.posts_df['date'] = ...\<close>); \<open>None\<close> while the column does
  not exist. \<open>DataFrame.empty\<close> holds exactly when there is no row.
\<close>

record 'r frame =
  rows :: "'r list"
  date_col :: "int list option"

definition empty_frame :: "'r frame \<Rightarrow> bool" where
  "empty_frame df = (rows df = [])"

record analyzer =
  posts_df :: "post_row frame"
  comments_df :: "comment_row frame"

text \<open>\<open>DataAnalyzer.__init__\<close>: an empty input list yields a frame of three named
  columns and no row, which is still the empty frame.\<close>

definition new_analyzer :: "post_row list \<Rightarrow> comment_row list \<Rightarrow> analyzer" where
  "new_analyzer post_rows comment_rows =
     \<lparr>posts_df = \<lparr>rows = post_rows, date_col = None\<rparr>,
      comments_df = \<lparr>rows = comment_rows, date_col = None\<rparr>\<rparr>"

subsection \<open>collections.Counter and most_common\<close>

text \<open>
  A \<open>Counter\<close> is a dictionary, so it remembers the order in which keys were first
  seen; it is an association list here. \<open>most_common n\<close> returns nothing for
  \<open>n \<le> 0\<close> and otherwise the \<open>n\<close> largest counts, equal counts in first-seen order
  (a stable descending sort).
\<close>

fun counter_add :: "'a \<Rightarrow> ('a \<times> nat) list \<Rightarrow> ('a \<times> nat) list" where
  "counter_add x [] = [(x, 1)]"
| "counter_add x ((k, n) # kvs) =
     (if k = x then (k, Suc n) # kvs else (k, n) # counter_add x kvs)"

definition counter :: "'a list \<Rightarrow> ('a \<times> nat) list" where
  "counter xs = foldl (\<lambda>c x. counter_add x c) [] xs"

definition sorted_desc :: "('a \<Rightarrow> int) \<Rightarrow> 'a list \<Rightarrow> 'a list" where
  "sorted_desc key xs = sort_key (\<lambda>x. - key x) xs"

definition most_common :: "int \<Rightarrow> ('a \<times> nat) list \<Rightarrow> ('a \<times> nat) list" where
  "most_common n c =
     (if n \<le> 0 then [] else take (nat n) (sorted_desc (\<lambda>kv. int (snd kv)) c))"

subsection \<open>Basic statistics\<close>

record basic_stats =
  total_volume :: nat
  post_count :: nat
  comment_count :: nat
  unique_users :: nat
  unique_subreddits :: nat

definition count_unique_users :: "analyzer \<Rightarrow> nat" where
  "count_unique_users a =
     (let post_authors = (if \<not> empty_frame (posts_df a)
                          then set (map p_author (rows (posts_df a))) else {});
          comment_authors = (if \<not> empty_frame (comments_df a)
                             then set (map c_author (rows (comments_df a))) else {});
          all_authors = post_authors \<union> comment_authors
      in card (all_authors - {''[deleted]''} - {''AutoModerator''}))"

definition count_unique_subreddits :: "analyzer \<Rightarrow> nat" where
  "count_unique_subreddits a =
     (let post_subreddits = (if \<not> empty_frame (posts_df a)
                             then set (map p_subreddit (rows (posts_df a))) else {});
          comment_subreddits = (if \<not> empty_frame (comments_df a)
                                then set (map c_subreddit (rows (comments_df a))) else {})
      in card (post_subreddits \<union> comment_subreddits))"

definition calculate_basic_stats :: "analyzer \<Rightarrow> basic_stats" where
  "calculate_basic_stats a =
     \<lparr>total_volume = length (rows (posts_df a)) + length (rows (comments_df a)),
      post_count = length (rows (posts_df a)),
      comment_count = length (rows (comments_df a)),
      unique_users = count_unique_users a,
      unique_subreddits = count_unique_subreddits a\<rparr>"

subsection \<open>Forum histogram\<close>

definition all_subreddits :: "analyzer \<Rightarrow> string list" where
  "all_subreddits a =
     (if \<not> empty_frame (posts_df a) then map p_subreddit (rows (posts_df a)) else []) @
     (if \<not> empty_frame (comments_df a) then map c_subreddit (rows (comments_df a)) else [])"

definition get_subreddit_distribution :: "analyzer \<Rightarrow> int \<Rightarrow> (string \<times> nat) list" where
  "get_subreddit_distribution a top_n = most_common top_n (counter (all_subreddits a))"

subsection \<open>Engagement statistics\<close>

text \<open>
  pandas answers \<open>mean\<close> and \<open>median\<close> of a column without rows with NaN instead of
  raising, so a float is either NaN or a number. Rounding of binary floating point is
  not modelled: a number is the exact quotient.
\<close>

datatype pyfloat = NaN | Float real

definition mean :: "int list \<Rightarrow> pyfloat" where
  "mean xs = (if xs = [] then NaN else Float (real_of_int (sum_list xs) / real (length xs)))"

definition median :: "int list \<Rightarrow> pyfloat" where
  "median xs =
     (let ys = sort xs; n = length ys
      in if n = 0 then NaN
         else if odd n then Float (real_of_int (ys ! (n div 2)))
         else Float ((real_of_int (ys ! (n div 2 - 1)) + real_of_int (ys ! (n div 2))) / 2))"

record engagement =
  avg_post_score :: pyfloat
  avg_comment_score :: pyfloat
  total_post_score :: int
  total_comment_score :: int
  avg_comments_per_post :: pyfloat
  median_post_score :: pyfloat
  median_comment_score :: pyfloat

definition engagement0 :: engagement where
  "engagement0 =
     \<lparr>avg_post_score = Float 0, avg_comment_score = Float 0, total_post_score = 0,
      total_comment_score = 0, avg_comments_per_post = Float 0,
      median_post_score = Float 0, median_comment_score = Float 0\<rparr>"

definition get_engagement_stats :: "analyzer \<Rightarrow> engagement" where
  "get_engagement_stats a =
     (let e0 = engagement0;
          e1 = (if \<not> empty_frame (posts_df a)
                then e0\<lparr>avg_post_score := mean (map p_score (rows (posts_df a))),
                        total_post_score := sum_list (map p_score (rows (posts_df a))),
                        median_post_score := median (map p_score (rows (posts_df a))),
                        avg_comments_per_post := mean (map p_num_comments (rows (posts_df a)))\<rparr>
                else e0);
          e2 = (if \<not> empty_frame (comments_df a)
                then e1\<lparr>avg_comment_score := mean (map c_score (rows (comments_df a))),
                        total_comment_score := sum_list (map c_score (rows (comments_df a))),
                        median_comment_score := median (map c_score (rows (comments_df a)))\<rparr>
                else e1)
      in e2)"

subsection \<open>Time histogram\<close>

text \<open>\<open>groupby('date').size().to_dict()\<close>: one entry per distinct date, in ascending
  order of the dates, with the number of rows of that date.\<close>

definition group_sizes :: "int list \<Rightarrow> (int \<times> nat) list" where
  "group_sizes ds = map (\<lambda>d. (d, count_list ds d)) (sort (remdups ds))"

record time_stats =
  posts_by_date :: "(int \<times> nat) list"
  comments_by_date :: "(int \<times> nat) list"

text \<open>\<open>get_time_distribution\<close> writes the \<open>date\<close> column into each frame that has rows,
  so it returns the analyzer as well.\<close>

definition get_time_distribution :: "analyzer \<Rightarrow> time_stats \<times> analyzer" where
  "get_time_distribution a =
     (let post_dates = map (\<lambda>r. p_created_date r div 86400) (rows (posts_df a));
          a1 = (if \<not> empty_frame (posts_df a)
                then a\<lparr>posts_df := (posts_df a)\<lparr>date_col := Some post_dates\<rparr>\<rparr> else a);
          by_post = (if \<not> empty_frame (posts_df a) then group_sizes post_dates else []);
          comment_dates = map (\<lambda>r. c_created_date r div 86400) (rows (comments_df a1));
          a2 = (if \<not> empty_frame (comments_df a1)
                then a1\<lparr>comments_df := (comments_df a1)\<lparr>date_col := Some comment_dates\<rparr>\<rparr>
                else a1);
          by_comment = (if \<not> empty_frame (comments_df a1) then group_sizes comment_dates else [])
      in (\<lparr>posts_by_date = by_post, comments_by_date = by_comment\<rparr>, a2))"

subsection \<open>Rankings\<close>

record top_post =
  tp_title :: string
  tp_author :: string
  tp_subreddit :: string
  tp_score :: int
  tp_num_comments :: int
  tp_permalink :: string
  tp_created_date :: int

definition top_post_of :: "post_row \<Rightarrow> top_post" where
  "top_post_of r =
     \<lparr>tp_title = p_title r, tp_author = p_author r, tp_subreddit = p_subreddit r,
      tp_score = p_score r, tp_num_comments = p_num_comments r,
      tp_permalink = p_permalink r, tp_created_date = p_created_date r\<rparr>"

text \<open>\<open>DataFrame.nlargest(n, 'score')\<close>: the \<open>n\<close> rows of largest score in descending
  order, rows of equal score in their original order; no row for \<open>n \<le> 0\<close>.\<close>

definition nlargest :: "int \<Rightarrow> post_row list \<Rightarrow> post_row list" where
  "nlargest n rs = (if n \<le> 0 then [] else take (nat n) (sorted_desc p_score rs))"

definition get_top_posts :: "analyzer \<Rightarrow> int \<Rightarrow> top_post list" where
  "get_top_posts a top_n =
     (if empty_frame (posts_df a) then []
      else map top_post_of (nlargest top_n (rows (posts_df a))))"

definition get_top_users :: "analyzer \<Rightarrow> int \<Rightarrow> (string \<times> nat) list" where
  "get_top_users a top_n =
     (let all_authors =
            (if \<not> empty_frame (posts_df a) then map p_author (rows (posts_df a)) else []) @
            (if \<not> empty_frame (comments_df a) then map c_author (rows (comments_df a)) else []);
          kept = filter (\<lambda>x. x \<notin> set [''[deleted]'', ''AutoModerator'']) all_authors
      in most_common top_n (counter kept))"

subsection \<open>Summary\<close>

record summary =
  sm_basic_stats :: basic_stats
  sm_subreddit_distribution :: "(string \<times> nat) list"
  sm_time_distribution :: time_stats
  sm_engagement_stats :: engagement
  sm_top_posts :: "top_post list"
  sm_top_users :: "(string \<times> nat) list"

text \<open>
  \<open>export_summary\<close> evaluates the six entries in the order of the dictionary literal,
  so the four after \<open>time_distribution\<close> read the frames with the \<open>date\<close> column.
  \<open>convert_dates\<close> replaces each dictionary key by its \<open>str\<close>; a date is already the
  one value that stands for its rendering, so the summary is unchanged by it. Writing
  the JSON file is outside the model.
\<close>

definition export_summary :: "analyzer \<Rightarrow> summary \<times> analyzer" where
  "export_summary a =
     (let basic = calculate_basic_stats a;
          forums = get_subreddit_distribution a 10;
          (times, a1) = get_time_distribution a;
          eng = get_engagement_stats a1;
          posts = get_top_posts a1 10;
          users = get_top_users a1 10
      in (\<lparr>sm_basic_stats = basic, sm_subreddit_distribution = forums,
           sm_time_distribution = times, sm_engagement_stats = eng,
           sm_top_posts = posts, sm_top_users = users\<rparr>, a1))"

section \<open>Topic extractor (topic_analyzer.py)\<close>

text \<open>
  The topic analyzer reads \<open>title\<close> and \<open>selftext\<close> of the posts and \<open>body\<close> of the
  comments. Text is 7-bit: \<open>lower\<close> maps \<open>A\<close>--\<open>Z\<close> to \<open>a\<close>--\<open>z\<close>, and the characters
  that \<open>\s\<close> and \<open>split\<close> treat as white space are those of codes 9--13, 28--31 and 32.
\<close>

record topic_analyzer =
  ta_posts :: "post_row list"
  ta_comments :: "comment_row list"

definition stop_words :: "string list" where
  "stop_words =
     [''the'', ''a'', ''an'', ''and'', ''or'', ''but'', ''in'', ''on'', ''at'', ''to'', ''for'',
      ''of'', ''with'', ''by'', ''from'', ''as'', ''is'', ''was'', ''are'', ''were'', ''been'',
      ''be'', ''have'', ''has'', ''had'', ''do'', ''does'', ''did'', ''will'', ''would'',
      ''could'', ''should'', ''may'', ''might'', ''can'', ''this'', ''that'', ''these'',
      ''those'', ''i'', ''you'', ''he'', ''she'', ''it'', ''we'', ''they'', ''what'', ''which'',
      ''who'', ''when'', ''where'', ''why'', ''how'', ''my'', ''your'', ''his'', ''her'', ''its'',
      ''our'', ''their'', ''me'', ''him'', ''them'', ''us'', ''just'', ''not'', ''ve'', ''re'',
      ''ll'', ''s'', ''t'', ''m'', ''d'', ''like'', ''get'', ''got'', ''one'', ''also'', ''really'',
      ''even'', ''still'', ''much'', ''more'', ''very'', ''so'', ''too'', ''out'', ''up'', ''down'',
      ''https'', ''http'', ''com'', ''www'']"

fun join :: "string \<Rightarrow> string list \<Rightarrow> string" where
  "join sep [] = []"
| "join sep [x] = x"
| "join sep (x # y # zs) = x @ sep @ join sep (y # zs)"

definition extract_text_from_data :: "topic_analyzer \<Rightarrow> string" where
  "extract_text_from_data ta =
     (let post_text = concat (map (\<lambda>post. p_title post #
                         (if p_selftext post \<noteq> [] then [p_selftext post] else []))
                       (ta_posts ta));
          comment_text = filter (\<lambda>b. b \<noteq> []) (map c_body (ta_comments ta))
      in join '' '' (post_text @ comment_text))"

definition is_space :: "char \<Rightarrow> bool" where
  "is_space c = ((of_char c :: nat) \<in> {9, 10, 11, 12, 13, 28, 29, 30, 31, 32})"

definition is_alnum :: "char \<Rightarrow> bool" where
  "is_alnum c =
     (let n = (of_char c :: nat)
      in (48 \<le> n \<and> n \<le> 57) \<or> (65 \<le> n \<and> n \<le> 90) \<or> (97 \<le> n \<and> n \<le> 122))"

text \<open>A match of \<open>http\S+|www\S+\<close> starts where the text reads \<open>http\<close> (or \<open>www\<close>)
  followed by a character that is not white space.\<close>

definition url_start :: "string \<Rightarrow> bool" where
  "url_start s =
     ((take 4 s = ''http'' \<and> (case drop 4 s of [] \<Rightarrow> False | c # cs \<Rightarrow> \<not> is_space c)) \<or>
      (take 3 s = ''www'' \<and> (case drop 3 s of [] \<Rightarrow> False | c # cs \<Rightarrow> \<not> is_space c)))"

text \<open>\<open>re.sub(r'http\S+|www\S+', '', text)\<close>: matches are found from left to right and
  each one runs to the next white space.\<close>

function strip_urls :: "string \<Rightarrow> string" where
  "strip_urls [] = []"
| "strip_urls (c # cs) =
     (if url_start (c # cs) then strip_urls (dropWhile (\<lambda>x. \<not> is_space x) cs)
      else c # strip_urls cs)"
  by pat_completeness auto
termination
  by (relation "measure length") (auto simp: less_Suc_eq_le length_dropWhile_le)

text \<open>\<open>re.sub(r'[^a-zA-Z0-9\s]', ' ', text)\<close>.\<close>

definition strip_special :: "string \<Rightarrow> string" where
  "strip_special s = map (\<lambda>c. if is_alnum c \<or> is_space c then c else CHR '' '') s"

text \<open>\<open>re.sub(r'\s+', ' ', text)\<close> and \<open>str.strip()\<close>.\<close>

function collapse_spaces :: "string \<Rightarrow> string" where
  "collapse_spaces [] = []"
| "collapse_spaces (c # cs) =
     (if is_space c then CHR '' '' # collapse_spaces (dropWhile is_space cs)
      else c # collapse_spaces cs)"
  by pat_completeness auto
termination
  by (relation "measure length") (auto simp: less_Suc_eq_le length_dropWhile_le)

definition strip :: "string \<Rightarrow> string" where
  "strip s = rev (dropWhile is_space (rev (dropWhile is_space s)))"

definition clean_text :: "string \<Rightarrow> string" where
  "clean_text text0 = strip (collapse_spaces (strip_special (strip_urls (lower text0))))"

text \<open>\<open>str.split()\<close>: the maximal runs of characters that are not white space;
  \<open>cur\<close> holds the run being read.\<close>

fun split_from :: "string \<Rightarrow> string \<Rightarrow> string list" where
  "split_from cur [] = (if cur = [] then [] else [cur])"
| "split_from cur (c # cs) =
     (if is_space c then (if cur = [] then split_from [] cs else cur # split_from [] cs)
      else split_from (cur @ [c]) cs)"

definition split :: "string \<Rightarrow> string list" where
  "split s = split_from [] s"

definition extract_keywords :: "topic_analyzer \<Rightarrow> int \<Rightarrow> (string \<times> nat) list" where
  "extract_keywords ta top_n =
     (let all_text = extract_text_from_data ta;
          cleaned_text = clean_text all_text;
          ws = split cleaned_text;
          filtered_words = filter (\<lambda>w. w \<notin> set stop_words \<and> length w > 2) ws
      in most_common top_n (counter filtered_words))"

definition topic_patterns :: "(string \<times> string list) list" where
  "topic_patterns =
     [(''performance'', [''performance'', ''speed'', ''fast'', ''slow'', ''lag'', ''fps'',
                         ''battery'', ''processor'', ''chip'']),
      (''design'', [''design'', ''look'', ''color'', ''screen'', ''display'', ''size'',
                    ''weight'', ''build'', ''camera'']),
      (''price'', [''price'', ''cost'', ''expensive'', ''cheap'', ''worth'', ''value'',
                   ''money'', ''deal'', ''sale'']),
      (''features'', [''feature'', ''function'', ''support'', ''software'', ''update'',
                      ''version'', ''system'', ''app'']),
      (''quality'', [''quality'', ''issue'', ''problem'', ''defect'', ''break'', ''damage'',
                     ''fix'', ''repair'', ''warranty'']),
      (''comparison'', [''better'', ''worse'', ''compare'', ''difference'', ''versus'', ''vs'',
                        ''alternative'', ''similar'']),
      (''user_experience'', [''use'', ''experience'', ''love'', ''hate'', ''like'', ''dislike'',
                             ''recommend'', ''buy'', ''purchased''])]"

record topic_stat =
  ts_keywords :: "(string \<times> nat) list"
  total_mentions :: nat

text \<open>Lines 168--172: the extracted keywords that are in the topic's list, in the
  order of extraction.\<close>

definition related_words :: "string list \<Rightarrow> (string \<times> nat) list \<Rightarrow> (string \<times> nat) list" where
  "related_words patterns keywords = filter (\<lambda>wc. fst wc \<in> set patterns) keywords"

text \<open>Lines 166--179: one entry for each topic with at least one related word.\<close>

fun topic_stats_of ::
  "(string \<times> string list) list \<Rightarrow> (string \<times> nat) list \<Rightarrow> (string \<times> topic_stat) list" where
  "topic_stats_of [] keywords = []"
| "topic_stats_of ((topic, patterns) # rest) keywords =
     (let related = related_words patterns keywords
      in if related \<noteq> []
         then (topic, \<lparr>ts_keywords = related, total_mentions = sum_list (map snd related)\<rparr>)
              # topic_stats_of rest keywords
         else topic_stats_of rest keywords)"

text \<open>The slice \<open>xs[:n]\<close>; a negative \<open>n\<close> counts from the end.\<close>

definition slice_to :: "int \<Rightarrow> 'a list \<Rightarrow> 'a list" where
  "slice_to n xs = (if 0 \<le> n then take (nat n) xs else take (length xs - nat (- n)) xs)"

definition extract_topic_clusters :: "topic_analyzer \<Rightarrow> int \<Rightarrow> (string \<times> topic_stat) list" where
  "extract_topic_clusters ta top_n =
     (let keywords = extract_keywords ta 100
      in if keywords = [] then []
         else slice_to top_n
                (sorted_desc (\<lambda>x. int (total_mentions (snd x)))
                   (topic_stats_of topic_patterns keywords)))"

section \<open>Notions used to state the crawler's properties\<close>

text \<open>A comment node that the walker has to collect: it has a non-empty body, an
  \<open>id\<close>, and a timestamp inside the window.\<close>

definition collectable :: "'w env \<Rightarrow> config \<Rightarrow> json \<Rightarrow> bool" where
  "collectable env cfg comment =
     (has_truthy ''body'' comment = Inr True \<and>
      (case py_getitem comment ''id'' of Inl e \<Rightarrow> False | Inr v \<Rightarrow> True) \<and>
      (case py_getitem comment ''created_utc'' of
         Inl e \<Rightarrow> False
       | Inr created \<Rightarrow> is_in_date_range env cfg created = Inr True))"

text \<open>
  \<open>chain items cs\<close>: the reply listing \<open>items\<close> is a thread in which every level holds
  exactly one node, of kind \<open>t1\<close>; \<open>cs\<close> are the \<open>data\<close> dictionaries of its nodes from
  the top down, so \<open>length cs\<close> is the depth. The last node has no replies to descend
  into, or an empty list of them.
\<close>

inductive chain :: "json list \<Rightarrow> json list \<Rightarrow> bool" where
  chain_end: "chain [] []"
| chain_leaf:
    "py_getitem x ''kind'' = Inr (JStr ''t1'') \<Longrightarrow> py_getitem x ''data'' = Inr c \<Longrightarrow>
     replies_children c = Inr None \<Longrightarrow> chain [x] [c]"
| chain_step:
    "py_getitem x ''kind'' = Inr (JStr ''t1'') \<Longrightarrow> py_getitem x ''data'' = Inr c \<Longrightarrow>
     replies_children c = Inr (Some ch) \<Longrightarrow> py_iter ch = Inr kids \<Longrightarrow>
     chain kids cs \<Longrightarrow> chain [x] (c # cs)"

code_pred chain .

text \<open>
  \<open>in_thread c items\<close>: the comment dictionary \<open>c\<close> is the \<open>data\<close> of a node of the tree
  \<open>items\<close>, at the top level or below any number of comment nodes. Nothing is asked
  of the nodes above it but that they are comments with a reply listing.
\<close>

inductive in_thread :: "json \<Rightarrow> json list \<Rightarrow> bool" where
  at_top:
    "x \<in> set items \<Longrightarrow> py_getitem x ''kind'' = Inr (JStr ''t1'') \<Longrightarrow>
     py_getitem x ''data'' = Inr c \<Longrightarrow> in_thread c items"
| below:
    "x \<in> set items \<Longrightarrow> py_getitem x ''kind'' = Inr (JStr ''t1'') \<Longrightarrow>
     py_getitem x ''data'' = Inr p \<Longrightarrow> replies_children p = Inr (Some ch) \<Longrightarrow>
     py_iter ch = Inr kids \<Longrightarrow> in_thread c kids \<Longrightarrow> in_thread c items"

code_pred in_thread .

text \<open>The timestamps of everything collected so far pass the date window test.\<close>

definition windowed :: "'w env \<Rightarrow> config \<Rightarrow> 'w state \<Rightarrow> bool" where
  "windowed env cfg s =
     (list_all (\<lambda>p. is_in_date_range env cfg (pi_created_utc p) = Inr True) (posts_data s) \<and>
      list_all (\<lambda>c. is_in_date_range env cfg (ci_created_utc c) = Inr True) (comments_data s))"

text \<open>The requests for search pages in a trace, and the forums whose search a trace
  announces.\<close>

fun search_requests :: "event list \<Rightarrow> event list" where
  "search_requests [] = []"
| "search_requests (Get SearchAll ps # evs) = Get SearchAll ps # search_requests evs"
| "search_requests (Get (SearchIn name) ps # evs) = Get (SearchIn name) ps # search_requests evs"
| "search_requests (ev # evs) = search_requests evs"

fun searched :: "event list \<Rightarrow> string list" where
  "searched [] = []"
| "searched (Print (Searching name) # evs) = name # searched evs"
| "searched (ev # evs) = searched evs"

text \<open>An entry of a search page that the loop turns into a post without raising: its
  \<open>data\<close> has an \<open>id\<close>, a timestamp inside the window and a \<open>num_comments\<close> that compares
  with 0, and a \<open>permalink\<close> if it reports comments.\<close>

definition in_window_post :: "'w env \<Rightarrow> config \<Rightarrow> json \<Rightarrow> bool" where
  "in_window_post env cfg post_data =
     (case py_getitem post_data ''data'' of
        Inl e \<Rightarrow> False
      | Inr post \<Rightarrow>
          (case py_getitem post ''created_utc'' of
             Inl e \<Rightarrow> False
           | Inr created \<Rightarrow> is_in_date_range env cfg created = Inr True) \<and>
          (case py_getitem post ''id'' of Inl e \<Rightarrow> False | Inr v \<Rightarrow> True) \<and>
          (case py_getitem post ''num_comments'' of
             Inl e \<Rightarrow> False
           | Inr n \<Rightarrow>
               (case py_gt0 n of
                  Inl e \<Rightarrow> False
                | Inr has_comments \<Rightarrow>
                    if has_comments
                    then (case py_getitem post ''permalink'' of Inl e \<Rightarrow> False | Inr v \<Rightarrow> True)
                    else True)))"

text \<open>The record the loop appends for such an entry.\<close>

definition post_info_at :: "'w env \<Rightarrow> json \<Rightarrow> exn + post_info" where
  "post_info_at env post_data = then_exn (py_getitem post_data ''data'') (post_info_of env)"

text \<open>\<open>appends_comments env cfg s s'\<close>: the state \<open>s'\<close> is \<open>s\<close> with further comments
  appended, each with a timestamp inside the window.\<close>

definition appends_comments :: "'w env \<Rightarrow> config \<Rightarrow> 'w state \<Rightarrow> 'w state \<Rightarrow> bool" where
  "appends_comments env cfg s s' =
     (\<exists>new. s' = s\<lparr>comments_data := comments_data s @ new\<rparr> \<and>
        list_all (\<lambda>c. is_in_date_range env cfg (ci_created_utc c) = Inr True) new)"

text \<open>
  \<open>comment_step\<close>: what fetching the comments of a post does to the state, apart from
  the server's own state: the posts stay, comments inside the window are appended, and
  the new events are neither search requests nor announcements of a forum.
  \<open>forum_step\<close>: what the search of one forum does: posts and comments inside the
  window are appended, and no new event announces a forum.
\<close>

definition comment_step :: "'w env \<Rightarrow> config \<Rightarrow> 'w state \<Rightarrow> 'w state \<Rightarrow> bool" where
  "comment_step env cfg s s' =
     (posts_data s' = posts_data s \<and>
      (\<exists>cs evs. comments_data s' = comments_data s @ cs \<and> trace s' = trace s @ evs \<and>
         list_all (\<lambda>c. is_in_date_range env cfg (ci_created_utc c) = Inr True) cs \<and>
         search_requests evs = [] \<and> searched evs = []))"

definition forum_step :: "'w env \<Rightarrow> config \<Rightarrow> 'w state \<Rightarrow> 'w state \<Rightarrow> bool" where
  "forum_step env cfg s s' =
     (\<exists>ps cs evs. posts_data s' = posts_data s @ ps \<and>
         comments_data s' = comments_data s @ cs \<and> trace s' = trace s @ evs \<and>
         list_all (\<lambda>p. is_in_date_range env cfg (pi_created_utc p) = Inr True) ps \<and>
         list_all (\<lambda>c. is_in_date_range env cfg (ci_created_utc c) = Inr True) cs \<and>
         searched evs = [])"

text \<open>The window in calendar terms: the local time of the timestamp lies between the
  midnight that starts \<open>start_day\<close> and the midnight that starts \<open>end_day\<close>.\<close>

definition inside_window :: "'w env \<Rightarrow> int \<Rightarrow> int \<Rightarrow> json \<Rightarrow> bool" where
  "inside_window env start_day end_day created =
     (case as_timestamp created of
        None \<Rightarrow> False
      | Some t \<Rightarrow> start_day * 86400 \<le> t + utcoffset env t \<and>
                  t + utcoffset env t \<le> end_day * 86400)"

section \<open>Concrete inputs\<close>

text \<open>Rows and collections on which the theorems below are instantiated.\<close>

definition post_in :: "string \<Rightarrow> post_row" where
  "post_in sr = \<lparr>p_id = '''', p_title = '''', p_selftext = '''', p_author = '''',
     p_subreddit = sr, p_created_date = 0, p_score = 0, p_num_comments = 0, p_permalink = ''''\<rparr>"

definition eleven_forums :: "post_row list" where
  "eleven_forums = map post_in [''a'', ''b'', ''c'', ''d'', ''e'', ''f'', ''g'', ''h'', ''i'', ''j'', ''k'']"

definition post_titled :: "string \<Rightarrow> post_row" where
  "post_titled t = \<lparr>p_id = [], p_title = t, p_selftext = [], p_author = [],
     p_subreddit = [], p_created_date = 0, p_score = 0, p_num_comments = 0, p_permalink = []\<rparr>"

definition comment_saying :: "string \<Rightarrow> comment_row" where
  "comment_saying b = \<lparr>c_id = [], c_post_id = [], c_body = b, c_author = [],
     c_subreddit = [], c_created_date = 0, c_score = 0, c_permalink = []\<rparr>"

definition review_texts :: topic_analyzer where
  "review_texts =
     \<lparr>ta_posts = [post_titled ''Price? The PRICE is why: price, price, price.'',
                  post_titled ''So fast! fast, fast and fast; at https://example.com/slow''],
      ta_comments = [comment_saying ''price price price price price'',
                     comment_saying ''Slow... slow? SLOW! but fast'']\<rparr>"

text \<open>A configuration with the window from day 10 to day 20 and a limit of 150, a
  server that cannot be reached, and one that answers every request with an empty
  listing. The world of these servers is the number of requests they have received.\<close>

definition sample_config :: config where
  "sample_config = new_crawler ''acme'' ''phone'' 10 20 [''gadgets'', ''all''] 150"

definition offline :: "nat env" where
  "offline = \<lparr>respond = (\<lambda>w r. (RequestFailed, Suc w)), utcoffset = (\<lambda>t. 0),
               ts_ok = (\<lambda>t. True), frames = 1000\<rparr>"

text \<open>Comment nodes as the endpoint sends them, a thread of \<open>n\<close> nested replies with
  one reply per level, and a thread whose in-window reply sits below a removed
  comment and a comment from before the window.\<close>

definition comment_data :: "string \<Rightarrow> string \<Rightarrow> int \<Rightarrow> json \<Rightarrow> json" where
  "comment_data cid body created replies =
     JDict [(''id'', JStr cid), (''body'', JStr body), (''created_utc'', JNum created),
            (''replies'', replies)]"

definition comment_node :: "string \<Rightarrow> string \<Rightarrow> int \<Rightarrow> json \<Rightarrow> json" where
  "comment_node cid body created replies =
     JDict [(''kind'', JStr ''t1''), (''data'', comment_data cid body created replies)]"

definition listing_of :: "json list \<Rightarrow> json" where
  "listing_of children =
     JDict [(''kind'', JStr ''Listing''), (''data'', JDict [(''children'', JList children)])]"

fun thread :: "nat \<Rightarrow> json list" where
  "thread 0 = []"
| "thread (Suc n) =
     [comment_node (replicate (Suc n) CHR ''c'') ''deep'' 1000000
        (if n = 0 then JStr [] else listing_of (thread n))]"

fun thread_data :: "nat \<Rightarrow> json list" where
  "thread_data 0 = []"
| "thread_data (Suc n) =
     comment_data (replicate (Suc n) CHR ''c'') ''deep'' 1000000
        (if n = 0 then JStr [] else listing_of (thread n)) # thread_data n"

definition hidden_reply :: "json list" where
  "hidden_reply =
     [comment_node ''a'' [] 1000000
        (listing_of [comment_node ''b'' ''old'' 5
           (listing_of [comment_node ''c'' ''fresh'' 1000000 (JStr [])])])]"

definition empty_site :: "nat env" where
  "empty_site = \<lparr>respond = (\<lambda>w r. (JsonBody (JDict [(''data'',
                     JDict [(''children'', JList []), (''after'', JNull)])]), Suc w)),
                  utcoffset = (\<lambda>t. 0), ts_ok = (\<lambda>t. True), frames = 1000\<rparr>"

text \<open>Search pages as the endpoint sends them, and a server with two forums: the page
  of \<open>broken\<close> holds a post and then an entry without \<open>data\<close>; the page of \<open>gadgets\<close>
  holds a post with comments and a post from noon of day 20; every post has the
  comment tree \<open>hidden_reply\<close>.\<close>

definition post_entry :: "string \<Rightarrow> int \<Rightarrow> int \<Rightarrow> json" where
  "post_entry pid created n_comments =
     JDict [(''kind'', JStr ''t3''),
            (''data'', JDict [(''id'', JStr pid), (''title'', JStr ''phone''),
                              (''created_utc'', JNum created),
                              (''num_comments'', JNum n_comments),
                              (''permalink'', JStr (''/r/gadgets/comments/'' @ pid)),
                              (''subreddit'', JStr ''gadgets'')])]"

definition page :: "json list \<Rightarrow> json \<Rightarrow> json" where
  "page entries cursor =
     JDict [(''kind'', JStr ''Listing''),
            (''data'', JDict [(''children'', JList entries), (''after'', cursor)])]"

definition sample_site :: "nat env" where
  "sample_site =
     \<lparr>respond = (\<lambda>w r.
        (case fst r of
           SearchAll \<Rightarrow> RequestFailed
         | SearchIn name \<Rightarrow>
             if name = ''broken''
             then JsonBody (page [post_entry ''b1'' 1000000 0, JDict [(''kind'', JStr ''t3'')]] JNull)
             else if name = ''gadgets''
             then JsonBody (page [post_entry ''g1'' 1000000 1,
                                  post_entry ''g2'' (20 * 86400 + 43200) 0] JNull)
             else RequestFailed
         | CommentsOf p \<Rightarrow> JsonBody (JList [page [] JNull, listing_of hidden_reply]),
         Suc w)),
      utcoffset = (\<lambda>t. 0), ts_ok = (\<lambda>t. True), frames = 1000\<rparr>"

definition two_forums :: config where
  "two_forums = new_crawler ''acme'' ''phone'' 10 20 [''broken'', ''gadgets''] 150"

text \<open>The state in which the search of \<open>broken\<close> raises, and the state after the loop
  over both forums, both from the empty state.\<close>

definition after_broken :: "nat state" where
  "after_broken =
     \<lparr>posts_data =
        [\<lparr>pi_id = JStr ''b1'', pi_title = JStr ''phone'', pi_selftext = JStr [],
           pi_author = JStr ''[deleted]'', pi_subreddit = JStr ''gadgets'',
           pi_created_utc = JNum 1000000, pi_created_date = 1000000, pi_score = JNum 0,
           pi_upvote_ratio = JNum 0, pi_num_comments = JNum 0, pi_url = JStr [],
           pi_permalink = JStr ''/r/gadgets/comments/b1''\<rparr>],
      comments_data = [], world = 1,
      trace =
        [Print (Searching ''broken''),
         Get (SearchIn ''broken'')
           (Some \<lparr>param_q = ''acme phone'', param_sort = ''new'', param_limit = 100,
                   param_restrict_sr = ''on'', param_after = None\<rparr>),
         Sleep 2]\<rparr>"

definition after_run :: "nat state" where
  "after_run =
     \<lparr>posts_data =
        [\<lparr>pi_id = JStr ''b1'', pi_title = JStr ''phone'', pi_selftext = JStr [],
           pi_author = JStr ''[deleted]'', pi_subreddit = JStr ''gadgets'',
           pi_created_utc = JNum 1000000, pi_created_date = 1000000, pi_score = JNum 0,
           pi_upvote_ratio = JNum 0, pi_num_comments = JNum 0, pi_url = JStr [],
           pi_permalink = JStr ''/r/gadgets/comments/b1''\<rparr>,
         \<lparr>pi_id = JStr ''g1'', pi_title = JStr ''phone'', pi_selftext = JStr [],
           pi_author = JStr ''[deleted]'', pi_subreddit = JStr ''gadgets'',
           pi_created_utc = JNum 1000000, pi_created_date = 1000000, pi_score = JNum 0,
           pi_upvote_ratio = JNum 0, pi_num_comments = JNum 1, pi_url = JStr [],
           pi_permalink = JStr ''/r/gadgets/comments/g1''\<rparr>],
      comments_data =
        [\<lparr>ci_id = JStr ''c'', ci_post_id = JStr ''g1'', ci_body = JStr ''fresh'',
           ci_author = JStr ''[deleted]'', ci_subreddit = JStr ''gadgets'',
           ci_created_utc = JNum 1000000, ci_created_date = 1000000, ci_score = JNum 0,
           ci_permalink = JStr []\<rparr>],
      world = 3,
      trace =
        [Print (Searching ''broken''),
         Get (SearchIn ''broken'')
           (Some \<lparr>param_q = ''acme phone'', param_sort = ''new'', param_limit = 100,
                   param_restrict_sr = ''on'', param_after = None\<rparr>),
         Sleep 2, Print (SearchError ''broken'' KeyError), Print (Searching ''gadgets''),
         Get (SearchIn ''gadgets'')
           (Some \<lparr>param_q = ''acme phone'', param_sort = ''new'', param_limit = 100,
                   param_restrict_sr = ''on'', param_after = None\<rparr>),
         Sleep 2, Get (CommentsOf (JStr ''/r/gadgets/comments/g1'')) None, Sleep 2,
         Print LastPage]\<rparr>"

section \<open>Properties of the aggregation stage\<close>

text \<open>
  Claim C6. When the post collection is empty, the post mean, median and sum of score
  and the mean comment count are the number 0 (not NaN); likewise for the comment
  collection and its three fields; and when both are empty the result is the all-zero
  record.
\<close>

theorem engagement_empty_is_zero:
  "(rows (posts_df a) = [] \<longrightarrow>
      avg_post_score (get_engagement_stats a) = Float 0 \<and>
      median_post_score (get_engagement_stats a) = Float 0 \<and>
      total_post_score (get_engagement_stats a) = 0 \<and>
      avg_comments_per_post (get_engagement_stats a) = Float 0) \<and>
   (rows (comments_df a) = [] \<longrightarrow>
      avg_comment_score (get_engagement_stats a) = Float 0 \<and>
      median_comment_score (get_engagement_stats a) = Float 0 \<and>
      total_comment_score (get_engagement_stats a) = 0) \<and>
   (rows (posts_df a) = [] \<and> rows (comments_df a) = [] \<longrightarrow>
      get_engagement_stats a = engagement0)"
  by (simp add: get_engagement_stats_def empty_frame_def engagement0_def Let_def)

theorem engagement_empty_is_zero_witness:
  "avg_post_score (get_engagement_stats (new_analyzer [] [])) = Float 0 \<and>
   median_post_score (get_engagement_stats (new_analyzer [] [])) = Float 0 \<and>
   total_post_score (get_engagement_stats (new_analyzer [] [])) = 0 \<and>
   avg_comments_per_post (get_engagement_stats (new_analyzer [] [])) = Float 0 \<and>
   avg_comment_score (get_engagement_stats (new_analyzer [] [])) = Float 0 \<and>
   median_comment_score (get_engagement_stats (new_analyzer [] [])) = Float 0 \<and>
   total_comment_score (get_engagement_stats (new_analyzer [] [])) = 0 \<and>
   get_engagement_stats (new_analyzer [] []) = engagement0"
  using engagement_empty_is_zero [of "new_analyzer [] []"]
  by (simp add: new_analyzer_def engagement0_def)

subsection \<open>Counter and most_common\<close>

lemma sum_counter_add: "sum_list (map snd (counter_add x c)) = Suc (sum_list (map snd c))"
  by (induction c) auto

lemma map_fst_counter_add:
  "map fst (counter_add x c) = (if x \<in> fst ` set c then map fst c else map fst c @ [x])"
  by (induction c) force+

lemma keys_counter_add: "fst ` set (counter_add x c) = insert x (fst ` set c)"
  using arg_cong [OF map_fst_counter_add [of x c], of set] by (auto split: if_splits)

lemma distinct_counter_add:
  "distinct (map fst c) \<Longrightarrow> distinct (map fst (counter_add x c))"
  by (simp add: map_fst_counter_add)

lemma counter_foldl:
  "sum_list (map snd (foldl (\<lambda>c x. counter_add x c) c xs)) = sum_list (map snd c) + length xs \<and>
   set (map fst (foldl (\<lambda>c x. counter_add x c) c xs)) = set (map fst c) \<union> set xs \<and>
   (distinct (map fst c) \<longrightarrow> distinct (map fst (foldl (\<lambda>c x. counter_add x c) c xs)))"
  by (induction xs arbitrary: c) (auto simp: sum_counter_add keys_counter_add distinct_counter_add)

lemma sum_counter: "sum_list (map snd (counter xs)) = length xs"
  using counter_foldl [of "[]" xs] by (simp add: counter_def)

lemma length_counter: "length (counter xs) = card (set xs)"
proof -
  have d: "distinct (map fst (counter xs))" and s: "set (map fst (counter xs)) = set xs"
    using counter_foldl [of "[]" xs] by (simp_all add: counter_def)
  have "length (counter xs) = length (map fst (counter xs))" by simp
  also have "\<dots> = card (set (map fst (counter xs)))" using d by (simp only: distinct_card)
  finally show ?thesis using s by simp
qed

lemma sum_sorted_desc: "sum_list (map snd (sorted_desc key (c :: ('a \<times> nat) list))) = sum_list (map snd c)"
proof -
  have "mset (map snd (sorted_desc key c)) = mset (map snd c)"
    by (simp add: sorted_desc_def)
  then show ?thesis by (metis sum_mset_sum_list)
qed

lemma sum_take_le: "sum_list (map snd (take n (c :: ('a \<times> nat) list))) \<le> sum_list (map snd c)"
proof -
  have "sum_list (map snd c) = sum_list (map snd (take n c)) + sum_list (map snd (drop n c))"
    by (metis append_take_drop_id map_append sum_list_append)
  then show ?thesis by simp
qed

lemma sum_most_common_le: "sum_list (map snd (most_common n c)) \<le> sum_list (map snd c)"
  using sum_take_le [of "nat n" "sorted_desc (\<lambda>kv. int (snd kv)) c"]
  by (simp add: most_common_def sum_sorted_desc)

lemma most_common_all:
  "int (length c) \<le> n \<Longrightarrow> sum_list (map snd (most_common n c)) = sum_list (map snd c)"
proof (cases "n \<le> 0")
  case True
  assume "int (length c) \<le> n"
  with True have "length c = 0" by linarith
  then have "c = []" by simp
  then show ?thesis by (simp add: most_common_def sorted_desc_def)
next
  case False
  assume "int (length c) \<le> n"
  with False have "length (sorted_desc (\<lambda>kv. int (snd kv)) c) \<le> nat n"
    by (simp add: sorted_desc_def)
  with False show ?thesis by (simp add: most_common_def sum_sorted_desc)
qed

lemma length_all_subreddits:
  "length (all_subreddits a) = post_count (calculate_basic_stats a) + comment_count (calculate_basic_stats a)"
  by (simp add: all_subreddits_def calculate_basic_stats_def empty_frame_def)

lemma distinct_forums:
  "card (set (all_subreddits a)) = unique_subreddits (calculate_basic_stats a)"
  by (simp add: all_subreddits_def calculate_basic_stats_def count_unique_subreddits_def empty_frame_def Let_def)




subsection \<open>Summary export\<close>

lemma time_distribution_rows:
  "rows (posts_df (snd (get_time_distribution a))) = rows (posts_df a) \<and>
   rows (comments_df (snd (get_time_distribution a))) = rows (comments_df a)"
  by (simp add: get_time_distribution_def Let_def empty_frame_def)

lemma time_distribution_again:
  "get_time_distribution (snd (get_time_distribution a)) =
     (fst (get_time_distribution a), snd (get_time_distribution a))"
  by (simp add: get_time_distribution_def Let_def empty_frame_def)

lemma reads_rows_only:
  assumes "rows (posts_df b) = rows (posts_df a)" "rows (comments_df b) = rows (comments_df a)"
  shows "calculate_basic_stats b = calculate_basic_stats a"
    and "get_subreddit_distribution b n = get_subreddit_distribution a n"
    and "get_engagement_stats b = get_engagement_stats a"
    and "get_top_posts b n = get_top_posts a n"
    and "get_top_users b n = get_top_users a n"
  using assms
  by (simp_all add: calculate_basic_stats_def count_unique_users_def count_unique_subreddits_def
      get_subreddit_distribution_def all_subreddits_def get_engagement_stats_def
      get_top_posts_def get_top_users_def empty_frame_def Let_def)

text \<open>
  Claim C9. Computing the summary a second time on the analyzer the first computation
  left behind yields the same summary and leaves the analyzer as it is; the first
  computation changes the frames only by the \<open>date\<close> column it adds, the rows that
  came in are the rows that remain.
\<close>

theorem export_summary_idempotent:
  "fst (export_summary (snd (export_summary a))) = fst (export_summary a) \<and>
   snd (export_summary (snd (export_summary a))) = snd (export_summary a) \<and>
   rows (posts_df (snd (export_summary a))) = rows (posts_df a) \<and>
   rows (comments_df (snd (export_summary a))) = rows (comments_df a)"
proof -
  let ?a1 = "snd (get_time_distribution a)"
  have s: "snd (export_summary a) = ?a1"
    by (simp add: export_summary_def Let_def split_beta)
  have r: "rows (posts_df ?a1) = rows (posts_df a)" "rows (comments_df ?a1) = rows (comments_df a)"
    using time_distribution_rows [of a] by simp_all
  have f: "fst (export_summary ?a1) = fst (export_summary a)"
    by (simp add: export_summary_def Let_def split_beta time_distribution_again
        reads_rows_only [OF r])
  have g: "snd (export_summary ?a1) = ?a1"
    by (simp add: export_summary_def Let_def split_beta time_distribution_again)
  show ?thesis using f g r by (simp add: s)
qed

section \<open>Properties of the topic extractor\<close>

lemma topic_stats_of_entry:
  "(topic, st) \<in> set (topic_stats_of tps kws) \<Longrightarrow>
     \<exists>patterns. (topic, patterns) \<in> set tps \<and>
       ts_keywords st = related_words patterns kws \<and> ts_keywords st \<noteq> [] \<and>
       total_mentions st = sum_list (map snd (ts_keywords st))"
proof (induction tps)
  case Nil
  then show ?case by simp
next
  case (Cons tp tps)
  obtain t ps where tp: "tp = (t, ps)" by (cases tp)
  show ?case
  proof (cases "related_words ps kws = []")
    case True
    with Cons tp show ?thesis by (auto simp: Let_def)
  next
    case False
    with Cons tp show ?thesis by (auto simp: Let_def)
  qed
qed

lemma topic_stats_of_complete:
  "(topic, patterns) \<in> set tps \<Longrightarrow> related_words patterns kws \<noteq> [] \<Longrightarrow>
     topic \<in> fst ` set (topic_stats_of tps kws)"
proof (induction tps)
  case Nil
  then show ?case by simp
next
  case (Cons tp tps)
  obtain t ps where tp: "tp = (t, ps)" by (cases tp)
  show ?case
  proof (cases "tp = (topic, patterns)")
    case True
    with Cons.prems tp show ?thesis by (simp add: Let_def)
  next
    case False
    with Cons tp have "topic \<in> fst ` set (topic_stats_of tps kws)" by auto
    with tp show ?thesis by (simp add: Let_def)
  qed
qed

lemma length_topic_stats_of: "length (topic_stats_of tps kws) \<le> length tps"
proof (induction tps)
  case Nil
  then show ?case by simp
next
  case (Cons tp tps)
  obtain t ps where tp: "tp = (t, ps)" by (cases tp)
  with Cons show ?case by (simp add: Let_def)
qed

lemma set_slice_to: "set (slice_to n xs) \<subseteq> set xs"
  by (auto simp: slice_to_def dest: in_set_takeD)

lemma slice_to_all: "int (length xs) \<le> n \<Longrightarrow> slice_to n xs = xs"
  by (simp add: slice_to_def)

lemma length_slice_to: "0 \<le> n \<Longrightarrow> length (slice_to n xs) \<le> nat n"
  by (simp add: slice_to_def)

lemma set_sorted_desc: "set (sorted_desc key xs) = set xs"
  by (simp add: sorted_desc_def)

lemma length_sorted_desc: "length (sorted_desc key xs) = length xs"
  by (simp add: sorted_desc_def)

lemma sorted_sorted_desc: "sorted (map (\<lambda>x. - key x) (sorted_desc key xs))"
  by (simp add: sorted_desc_def)

lemma sorted_slice_to:
  "sorted (map f xs) \<Longrightarrow> sorted (map f (slice_to n xs))"
  by (simp add: slice_to_def take_map [symmetric] sorted_wrt_take del: take_map)

lemma distinct_topics: "distinct (map fst topic_patterns)"
  by (simp add: topic_patterns_def)

lemma length_topic_patterns: "length topic_patterns = 7"
  by (simp add: topic_patterns_def)

lemma distinct_counter_foldl:
  "distinct (map fst c) \<Longrightarrow> distinct (map fst (foldl (\<lambda>c x. counter_add x c) c xs))"
  by (induction xs arbitrary: c) (simp_all add: map_fst_counter_add)

lemma distinct_counter: "distinct (map fst (counter xs))"
  by (simp add: counter_def distinct_counter_foldl)

lemma distinct_most_common:
  assumes "distinct (map fst c)"
  shows "distinct (map fst (most_common n c))"
proof -
  have "mset (map fst (sorted_desc (\<lambda>kv. int (snd kv)) c)) = mset (map fst c)"
    by (simp add: sorted_desc_def)
  with assms have "distinct (map fst (sorted_desc (\<lambda>kv. int (snd kv)) c))"
    by (metis mset_eq_imp_distinct_iff)
  then show ?thesis
    by (simp add: most_common_def take_map [symmetric] distinct_take del: take_map)
qed

lemma sorted_most_common:
  "sorted (map (\<lambda>kv. - int (snd kv)) (most_common n c))"
  by (simp add: most_common_def sorted_desc_def take_map [symmetric] sorted_wrt_take del: take_map)

lemma three_keywords:
  assumes d: "distinct (map fst xs)"
    and s: "sorted (map (\<lambda>kv. - int (snd kv)) xs)"
    and e: "set xs = {(''fast'', 5), (''slow'', 3), (''price'', 10 :: nat)}"
  shows "xs = [(''price'', 10), (''fast'', 5), (''slow'', 3)]"
proof -
  let ?f = "\<lambda>kv :: string \<times> nat. - int (snd kv)"
  let ?ys = "[(''price'', 10), (''fast'', 5), (''slow'', 3 :: nat)]"
  have dx: "distinct xs" using d by (simp add: distinct_map)
  have inj: "inj_on ?f (set xs)" unfolding e by (simp add: inj_on_def)
  have "map ?f xs = map ?f ?ys"
  proof (rule sorted_distinct_set_unique)
    show "sorted (map ?f xs)" by (rule s)
    show "distinct (map ?f xs)" using dx inj by (simp add: distinct_map)
    show "sorted (map ?f ?ys)" by simp
    show "distinct (map ?f ?ys)" by simp
    show "set (map ?f xs) = set (map ?f ?ys)" using e by auto
  qed
  moreover have "set ?ys = set xs" using e by auto
  then have "inj_on ?f (set xs \<union> set ?ys)" using inj by simp
  ultimately show ?thesis by (simp only: inj_on_map_eq_map)
qed

lemma clusters_of_three:
  "slice_to top_n (sorted_desc (\<lambda>x. int (total_mentions (snd x)))
       (topic_stats_of topic_patterns [(''price'', 10), (''fast'', 5), (''slow'', 3)])) =
     slice_to top_n
       [(''price'', \<lparr>ts_keywords = [(''price'', 10)], total_mentions = 10\<rparr>),
        (''performance'', \<lparr>ts_keywords = [(''fast'', 5), (''slow'', 3)], total_mentions = 8\<rparr>)]"
  by (simp add: topic_patterns_def related_words_def sorted_desc_def Let_def)


lemma review_texts_keywords:
  "extract_keywords review_texts 100 = [(''price'', 10), (''fast'', 5), (''slow'', 3)]"
  by code_simp


section \<open>Properties of the crawler\<close>

lemma then_exn_simps [simp]:
  "then_exn (Inl e) k = Inl e" "then_exn (Inr x) k = k x"
  by (simp_all add: then_exn_def)

lemma raise_or_simps [simp]:
  "raise_or (Inl e) s k = (Inl e, s)" "raise_or (Inr x) s k = k x"
  by (simp_all add: raise_or_def)

lemma then_exn_Inr:
  "then_exn r k = Inr y \<Longrightarrow> \<exists>x. r = Inr x \<and> k x = Inr y"
  by (cases r) simp_all

lemma raise_or_Inr:
  "raise_or r s k = (Inr y, s') \<Longrightarrow> \<exists>x. r = Inr x \<and> k x = (Inr y, s')"
  by (cases r) simp_all

lemma emit_fields [simp]:
  "posts_data (emit ev s) = posts_data s" "comments_data (emit ev s) = comments_data s"
  "world (emit ev s) = world s" "trace (emit ev s) = trace s @ [ev]"
  by (simp_all add: emit_def)

subsection \<open>Fetcher\<close>

lemma make_request_data [simp]:
  "posts_data (snd (make_request env cfg u ps s)) = posts_data s"
  "comments_data (snd (make_request env cfg u ps s)) = comments_data s"
  by (simp_all add: make_request_def Let_def split_beta split: response.splits)




subsection \<open>Comment walker\<close>

lemma has_truthy_dict:
  "has_truthy k x = Inr True \<Longrightarrow> \<exists>kvs v. x = JDict kvs \<and> map_of kvs k = Some v \<and> truthy v"
  by (cases x) (auto simp: has_truthy_def split: if_splits option.splits)

lemma comment_info_created:
  "comment_info_of env pid sr c = Inr info \<Longrightarrow>
     py_getitem c ''created_utc'' = Inr (ci_created_utc info)"
  unfolding comment_info_of_def
  by (auto dest!: then_exn_Inr)

lemma collect_comment_cases:
  assumes "collect_comment env cfg c pid sr s = (r, s')"
  shows "s' = s \<or>
     (r = Inr () \<and> (\<exists>info. comment_info_of env pid sr c = Inr info \<and>
         is_in_date_range env cfg (ci_created_utc info) = Inr True \<and>
         s' = s\<lparr>comments_data := comments_data s @ [info]\<rparr>))"
proof (cases "comment_info_of env pid sr c")
  case (Inl e)
  with assms show ?thesis
    by (auto simp: collect_comment_def raise_or_def split: sum.splits if_splits)
next
  case (Inr info)
  with assms comment_info_created [OF Inr] show ?thesis
    by (auto simp: collect_comment_def raise_or_def split: sum.splits if_splits)
qed

lemma collect_collectable:
  assumes "collectable env cfg c"
  shows "\<exists>info. comment_info_of env pid sr c = Inr info \<and>
     collect_comment env cfg c pid sr s = (Inr (), s\<lparr>comments_data := comments_data s @ [info]\<rparr>)"
proof -
  from assms have b: "has_truthy ''body'' c = Inr True" by (simp add: collectable_def)
  then obtain kvs where c: "c = JDict kvs" using has_truthy_dict by blast
  from assms obtain cid where cid: "py_getitem c ''id'' = Inr cid"
    by (auto simp: collectable_def split: sum.splits)
  from assms obtain ts where ts: "py_getitem c ''created_utc'' = Inr ts"
      and w: "is_in_date_range env cfg ts = Inr True"
    by (auto simp: collectable_def split: sum.splits)
  from w obtain t where t: "fromtimestamp env ts = Inr t"
    by (auto simp: is_in_date_range_def dest: then_exn_Inr)
  have "\<exists>info. comment_info_of env pid sr c = Inr info"
    using cid ts t unfolding comment_info_of_def c by simp
  then obtain info where i: "comment_info_of env pid sr c = Inr info" ..
  then show ?thesis using b ts w by (simp add: collect_comment_def)
qed

lemma walk_ConsE:
  assumes "walk env cfg d (x # rest) pid sr s = (r, s')"
  obtains
    (bad_kind) e where "py_getitem x ''kind'' = Inl e" "r = Inl e" "s' = s"
  | (skip) k where "py_getitem x ''kind'' = Inr k" "k \<noteq> JStr ''t1''"
      "walk env cfg d rest pid sr s = (r, s')"
  | (bad_data) e where "py_getitem x ''kind'' = Inr (JStr ''t1'')"
      "py_getitem x ''data'' = Inl e" "r = Inl e" "s' = s"
  | (collect_fail) c e where "py_getitem x ''kind'' = Inr (JStr ''t1'')"
      "py_getitem x ''data'' = Inr c"
      "collect_comment env cfg c pid sr s = (Inl e, s')" "r = Inl e"
  | (replies_fail) c s1 e where "py_getitem x ''kind'' = Inr (JStr ''t1'')"
      "py_getitem x ''data'' = Inr c"
      "collect_comment env cfg c pid sr s = (Inr (), s1)"
      "replies_children c = Inl e" "r = Inl e" "s' = s1"
  | (no_replies) c s1 where "py_getitem x ''kind'' = Inr (JStr ''t1'')"
      "py_getitem x ''data'' = Inr c"
      "collect_comment env cfg c pid sr s = (Inr (), s1)"
      "replies_children c = Inr None" "walk env cfg d rest pid sr s1 = (r, s')"
  | (too_deep) c s1 ch where "py_getitem x ''kind'' = Inr (JStr ''t1'')"
      "py_getitem x ''data'' = Inr c"
      "collect_comment env cfg c pid sr s = (Inr (), s1)"
      "replies_children c = Inr (Some ch)" "d = 0" "r = Inl RecursionError" "s' = s1"
  | (iter_fail) c s1 ch d' e where "py_getitem x ''kind'' = Inr (JStr ''t1'')"
      "py_getitem x ''data'' = Inr c"
      "collect_comment env cfg c pid sr s = (Inr (), s1)"
      "replies_children c = Inr (Some ch)" "d = Suc d'" "py_iter ch = Inl e"
      "r = Inl e" "s' = s1"
  | (kids_fail) c s1 ch d' kids e where "py_getitem x ''kind'' = Inr (JStr ''t1'')"
      "py_getitem x ''data'' = Inr c"
      "collect_comment env cfg c pid sr s = (Inr (), s1)"
      "replies_children c = Inr (Some ch)" "d = Suc d'" "py_iter ch = Inr kids"
      "walk env cfg d' kids pid sr s1 = (Inl e, s')" "r = Inl e"
  | (descend) c s1 ch d' kids s2 where "py_getitem x ''kind'' = Inr (JStr ''t1'')"
      "py_getitem x ''data'' = Inr c"
      "collect_comment env cfg c pid sr s = (Inr (), s1)"
      "replies_children c = Inr (Some ch)" "d = Suc d'" "py_iter ch = Inr kids"
      "walk env cfg d' kids pid sr s1 = (Inr (), s2)"
      "walk env cfg d rest pid sr s2 = (r, s')"
  using assms
  by (auto simp: raise_or_def split: sum.splits if_splits option.splits nat.splits prod.splits)

lemma appends_comments_refl [simp]: "appends_comments env cfg s s"
  unfolding appends_comments_def by (rule exI [of _ "[]"]) simp

lemma appends_comments_trans:
  "appends_comments env cfg s s1 \<Longrightarrow> appends_comments env cfg s1 s2 \<Longrightarrow>
     appends_comments env cfg s s2"
  unfolding appends_comments_def
proof (elim exE conjE)
  fix a b
  assume "s1 = s\<lparr>comments_data := comments_data s @ a\<rparr>"
    "s2 = s1\<lparr>comments_data := comments_data s1 @ b\<rparr>"
    "list_all (\<lambda>c. is_in_date_range env cfg (ci_created_utc c) = Inr True) a"
    "list_all (\<lambda>c. is_in_date_range env cfg (ci_created_utc c) = Inr True) b"
  then show "\<exists>new. s2 = s\<lparr>comments_data := comments_data s @ new\<rparr> \<and>
      list_all (\<lambda>c. is_in_date_range env cfg (ci_created_utc c) = Inr True) new"
    by (intro exI [of _ "a @ b"]) simp
qed

lemma collect_comment_appends:
  "collect_comment env cfg c pid sr s = (r, s') \<Longrightarrow> appends_comments env cfg s s'"
proof -
  assume "collect_comment env cfg c pid sr s = (r, s')"
  from collect_comment_cases [OF this] show ?thesis
  proof
    assume "s' = s" then show ?thesis by simp
  next
    assume "r = Inr () \<and> (\<exists>info. comment_info_of env pid sr c = Inr info \<and>
         is_in_date_range env cfg (ci_created_utc info) = Inr True \<and>
         s' = s\<lparr>comments_data := comments_data s @ [info]\<rparr>)"
    then obtain info where "is_in_date_range env cfg (ci_created_utc info) = Inr True"
      "s' = s\<lparr>comments_data := comments_data s @ [info]\<rparr>" by blast
    then show ?thesis unfolding appends_comments_def
      by (intro exI [of _ "[info]"]) simp
  qed
qed

lemma walk_appends:
  "walk env cfg d items pid sr s = (r, s') \<Longrightarrow> appends_comments env cfg s s'"
proof (induction d arbitrary: items s r s' rule: less_induct)
  case (less d)
  from less.prems show ?case
  proof (induction items arbitrary: s)
    case Nil
    then show ?case by simp
  next
    case (Cons x rest)
    note tr = appends_comments_trans
    note cc = collect_comment_appends
    from Cons.prems show ?case
    proof (cases rule: walk_ConsE)
      case (bad_kind e) then show ?thesis by simp
    next
      case (skip k) then show ?thesis using Cons.IH by blast
    next
      case (bad_data e) then show ?thesis by simp
    next
      case (collect_fail c e) then show ?thesis using cc by blast
    next
      case (replies_fail c s1 e) then show ?thesis using cc by blast
    next
      case (no_replies c s1) then show ?thesis using cc tr Cons.IH by blast
    next
      case (too_deep c s1 ch) then show ?thesis using cc by blast
    next
      case (iter_fail c s1 ch d' e) then show ?thesis using cc by blast
    next
      case (kids_fail c s1 ch d' kids e)
      then have "appends_comments env cfg s1 s'" using less.IH [of d'] by blast
      with kids_fail show ?thesis using cc tr by blast
    next
      case (descend c s1 ch d' kids s2)
      then have a: "appends_comments env cfg s1 s2" using less.IH [of d'] by blast
      have b: "appends_comments env cfg s2 s'" using descend Cons.IH by blast
      have c: "appends_comments env cfg s s1" using descend(3) by (rule cc)
      show ?thesis by (rule tr [OF c tr [OF a b]])
    qed
  qed
qed

lemma appends_comments_subset:
  "appends_comments env cfg s s' \<Longrightarrow> set (comments_data s) \<subseteq> set (comments_data s')"
  unfolding appends_comments_def by auto

lemma walk_chain:
  "chain items cs \<Longrightarrow> list_all (collectable env cfg) cs \<Longrightarrow> length cs \<le> d \<Longrightarrow>
     \<exists>new. walk env cfg d items pid sr s =
             (Inr (), s\<lparr>comments_data := comments_data s @ new\<rparr>) \<and>
           map Inr new = map (comment_info_of env pid sr) cs"
proof (induction items cs arbitrary: d s rule: chain.induct)
  case chain_end
  show ?case by (rule exI [of _ "[]"]) simp
next
  case (chain_leaf x c)
  then have "collectable env cfg c" by simp
  from collect_collectable [OF this, of pid sr s] obtain info where
    i: "comment_info_of env pid sr c = Inr info"
    "collect_comment env cfg c pid sr s = (Inr (), s\<lparr>comments_data := comments_data s @ [info]\<rparr>)"
    by blast
  show ?case
    by (rule exI [of _ "[info]"]) (simp add: chain_leaf.hyps i)
next
  case (chain_step x c ch kids cs)
  then have "collectable env cfg c" and rest: "list_all (collectable env cfg) cs" by simp_all
  from collect_collectable [OF this(1), of pid sr s] obtain info where
    i: "comment_info_of env pid sr c = Inr info"
    "collect_comment env cfg c pid sr s = (Inr (), s\<lparr>comments_data := comments_data s @ [info]\<rparr>)"
    by blast
  from chain_step.prems obtain d' where d: "d = Suc d'" "length cs \<le> d'"
    by (cases d) simp_all
  let ?s1 = "s\<lparr>comments_data := comments_data s @ [info]\<rparr>"
  from chain_step.IH [OF rest d(2), of ?s1] obtain new where
    n: "walk env cfg d' kids pid sr ?s1 = (Inr (), ?s1\<lparr>comments_data := comments_data ?s1 @ new\<rparr>)"
    "map Inr new = map (comment_info_of env pid sr) cs"
    by blast
  show ?case
    by (rule exI [of _ "info # new"]) (simp add: chain_step.hyps i d n)
qed

lemma walk_visits:
  "walk env cfg d items pid sr s = (Inr (), s') \<Longrightarrow> x \<in> set items \<Longrightarrow>
   py_getitem x ''kind'' = Inr (JStr ''t1'') \<Longrightarrow> py_getitem x ''data'' = Inr c \<Longrightarrow>
     \<exists>s0 s1. collect_comment env cfg c pid sr s0 = (Inr (), s1) \<and>
       appends_comments env cfg s1 s' \<and>
       (\<forall>ch kids. replies_children c = Inr (Some ch) \<longrightarrow> py_iter ch = Inr kids \<longrightarrow>
          (\<exists>d' s2. d = Suc d' \<and> walk env cfg d' kids pid sr s1 = (Inr (), s2) \<and>
             appends_comments env cfg s2 s'))"
proof (induction items arbitrary: s)
  case Nil
  then show ?case by simp
next
  case (Cons y rest)
  note wa = walk_appends
  note tr = appends_comments_trans
  from Cons.prems(1) show ?case
  proof (cases rule: walk_ConsE)
    case (skip k)
    with Cons.prems have "x \<in> set rest" by auto
    from Cons.IH [OF skip(3) this Cons.prems(3,4)] show ?thesis .
  next
    case (no_replies c' s1)
    show ?thesis
    proof (cases "x = y")
      case True
      with no_replies Cons.prems have c: "c' = c" by simp
      have "appends_comments env cfg s1 s'" using no_replies(5) by (rule wa)
      with no_replies c show ?thesis by auto
    next
      case False
      with Cons.prems have "x \<in> set rest" by auto
      from Cons.IH [OF no_replies(5) this Cons.prems(3,4)] show ?thesis .
    qed
  next
    case (descend c' s1 ch d' kids s2)
    show ?thesis
    proof (cases "x = y")
      case True
      with descend Cons.prems have c: "c' = c" by simp
      have a: "appends_comments env cfg s2 s'" using descend(8) by (rule wa)
      have b: "appends_comments env cfg s1 s2" using descend(7) by (rule wa)
      have "appends_comments env cfg s1 s'" by (rule tr [OF b a])
      with descend c a show ?thesis by auto
    next
      case False
      with Cons.prems have "x \<in> set rest" by auto
      from Cons.IH [OF descend(8) this Cons.prems(3,4)] show ?thesis .
    qed
  qed simp_all
qed

lemma walk_collects:
  "in_thread c items \<Longrightarrow> walk env cfg d items pid sr s = (Inr (), s') \<Longrightarrow>
   collectable env cfg c \<Longrightarrow>
     \<exists>info. comment_info_of env pid sr c = Inr info \<and> info \<in> set (comments_data s')"
proof (induction c items arbitrary: d s s' rule: in_thread.induct)
  case (at_top x items c)
  from walk_visits [OF at_top.prems(1) at_top.hyps] obtain s0 s1 where
    v: "collect_comment env cfg c pid sr s0 = (Inr (), s1)" "appends_comments env cfg s1 s'"
    by (elim exE conjE)
  from collect_collectable [OF at_top.prems(2), of pid sr s0] v(1) obtain info where
    i: "comment_info_of env pid sr c = Inr info"
    "s1 = s0\<lparr>comments_data := comments_data s0 @ [info]\<rparr>" by auto
  then have "info \<in> set (comments_data s1)" by simp
  with appends_comments_subset [OF v(2)] i(1) show ?case by blast
next
  case (below x items p ch kids c)
  from walk_visits [OF below.prems(1) below.hyps(1,2,3)] below.hyps(4,5) obtain d' s1 s2 where
    v: "walk env cfg d' kids pid sr s1 = (Inr (), s2)" "appends_comments env cfg s2 s'"
    by (elim exE conjE allE impE) auto
  from below.IH [OF v(1) below.prems(2)] obtain info where
    "comment_info_of env pid sr c = Inr info" "info \<in> set (comments_data s2)" by blast
  with appends_comments_subset [OF v(2)] show ?case by blast
qed


lemma thread_is_chain: "chain (thread n) (thread_data n)"
proof (induction n)
  case 0
  show ?case by (simp add: chain_end)
next
  case (Suc n)
  show ?case
  proof (cases "n = 0")
    case True
    have "chain [comment_node ''c'' ''deep'' 1000000 (JStr [])]
                [comment_data ''c'' ''deep'' 1000000 (JStr [])]"
      by (rule chain_leaf)
         (simp_all add: comment_node_def comment_data_def replies_children_def has_truthy_def)
    with True show ?thesis by simp
  next
    case False
    have "chain [comment_node (replicate (Suc n) CHR ''c'') ''deep'' 1000000 (listing_of (thread n))]
                (comment_data (replicate (Suc n) CHR ''c'') ''deep'' 1000000 (listing_of (thread n))
                   # thread_data n)"
    proof (rule chain_step [where ch = "JList (thread n)" and kids = "thread n"])
      show "replies_children (comment_data (replicate (Suc n) CHR ''c'') ''deep'' 1000000
              (listing_of (thread n))) = Inr (Some (JList (thread n)))"
        by (simp add: comment_data_def replies_children_def has_truthy_def listing_of_def)
    qed (simp_all add: comment_node_def Suc.IH)
    with False show ?thesis by simp
  qed
qed

lemma thread_data_collectable: "list_all (collectable offline sample_config) (thread_data n)"
  by (induction n)
     (simp_all add: collectable_def comment_data_def has_truthy_def is_in_date_range_def
        fromtimestamp_def offline_def sample_config_def new_crawler_def strptime_dmy_def)

lemma length_thread_data: "length (thread_data n) = n"
  by (induction n) simp_all


text \<open>
  Claim C10. When the walker returns normally, every comment of the tree that has a
  non-empty body, an \<open>id\<close> and a timestamp inside the window is among the collected
  comments, whatever the nodes above it are: they may have no body or lie outside the
  window, the walker descends into their replies all the same.
\<close>

theorem walker_descends_below_excluded:
  assumes "extract_comments_recursive env cfg fr listing pid sr s = (Inr (), s')"
    and "py_iter listing = Inr items" and "in_thread c items" and "collectable env cfg c"
  shows "\<exists>info. comment_info_of env pid sr c = Inr info \<and> info \<in> set (comments_data s')"
proof -
  from assms(1,2) obtain d where "walk env cfg d items pid sr s = (Inr (), s')"
    by (cases fr) (simp_all add: extract_comments_recursive_def)
  from walk_collects [OF assms(3) this assms(4)] show ?thesis .
qed

lemma hidden_reply_walk:
  "extract_comments_recursive offline sample_config (frames offline) (JList hidden_reply)
       (JStr ''p1'') (JStr ''gadgets'') (new_state (0::nat)) =
     (Inr (), \<lparr>posts_data = [],
        comments_data = [\<lparr>ci_id = JStr ''c'', ci_post_id = JStr ''p1'', ci_body = JStr ''fresh'',
           ci_author = JStr ''[deleted]'', ci_subreddit = JStr ''gadgets'',
           ci_created_utc = JNum 1000000, ci_created_date = 1000000, ci_score = JNum 0,
           ci_permalink = JStr []\<rparr>],
        world = 0, trace = []\<rparr>)"
  by (simp add: extract_comments_recursive_def offline_def hidden_reply_def comment_node_def
      comment_data_def listing_of_def collect_comment_def has_truthy_def comment_info_of_def
      replies_children_def is_in_date_range_def fromtimestamp_def sample_config_def
      new_crawler_def strptime_dmy_def new_state_def)

theorem walker_descends_below_excluded_witness:
  "(\<exists>info. comment_info_of offline (JStr ''p1'') (JStr ''gadgets'')
             (comment_data ''c'' ''fresh'' 1000000 (JStr [])) = Inr info \<and>
      info \<in> set (comments_data (snd (extract_comments_recursive offline sample_config
          (frames offline) (JList hidden_reply) (JStr ''p1'') (JStr ''gadgets'')
          (new_state (0::nat)))))) \<and>
   length (comments_data (snd (extract_comments_recursive offline sample_config
          (frames offline) (JList hidden_reply) (JStr ''p1'') (JStr ''gadgets'')
          (new_state (0::nat))))) = 1"
proof -
  let ?c = "comment_data ''c'' ''fresh'' 1000000 (JStr [])"
  let ?b = "comment_data ''b'' ''old'' 5 (listing_of [comment_node ''c'' ''fresh'' 1000000 (JStr [])])"
  let ?a = "comment_data ''a'' [] 1000000 (listing_of [comment_node ''b'' ''old'' 5
              (listing_of [comment_node ''c'' ''fresh'' 1000000 (JStr [])])])"
  have kids: "\<And>cid body t xs. replies_children (comment_data cid body t (listing_of xs)) =
      Inr (Some (JList xs))"
    by (simp add: comment_data_def replies_children_def has_truthy_def listing_of_def)
  have node: "\<And>cid body t r. py_getitem (comment_node cid body t r) ''kind'' = Inr (JStr ''t1'') \<and>
      py_getitem (comment_node cid body t r) ''data'' = Inr (comment_data cid body t r)"
    by (simp add: comment_node_def)
  let ?nc = "comment_node ''c'' ''fresh'' 1000000 (JStr [])"
  let ?nb = "comment_node ''b'' ''old'' 5 (listing_of [?nc])"
  let ?na = "comment_node ''a'' [] 1000000 (listing_of [?nb])"
  have t1: "in_thread ?c [?nc]"
    by (rule at_top [where x = ?nc]) (simp_all add: node)
  have t2: "in_thread ?c [?nb]"
    by (rule below [where x = ?nb and p = ?b and ch = "JList [?nc]" and kids = "[?nc]"])
       (simp_all add: node kids t1)
  have t: "in_thread ?c hidden_reply"
    unfolding hidden_reply_def
    by (rule below [where x = ?na and p = ?a and ch = "JList [?nb]" and kids = "[?nb]"])
       (simp_all add: node kids t2)
  have c: "collectable offline sample_config ?c"
    by (simp add: collectable_def comment_data_def has_truthy_def is_in_date_range_def
        fromtimestamp_def offline_def sample_config_def new_crawler_def strptime_dmy_def)
  have i: "py_iter (JList hidden_reply) = Inr hidden_reply" by simp
  from walker_descends_below_excluded [OF hidden_reply_walk i t c] show ?thesis
    by (simp add: hidden_reply_walk)
qed

subsection \<open>What a step of the crawl changes\<close>

lemma search_requests_append [simp]:
  "search_requests (xs @ ys) = search_requests xs @ search_requests ys"
  by (induction xs rule: search_requests.induct) simp_all

lemma searched_append [simp]: "searched (xs @ ys) = searched xs @ searched ys"
  by (induction xs rule: searched.induct) simp_all

lemma comment_stepI:
  "posts_data s' = posts_data s \<Longrightarrow> comments_data s' = comments_data s @ cs \<Longrightarrow>
   trace s' = trace s @ evs \<Longrightarrow>
   list_all (\<lambda>c. is_in_date_range env cfg (ci_created_utc c) = Inr True) cs \<Longrightarrow>
   search_requests evs = [] \<Longrightarrow> searched evs = [] \<Longrightarrow> comment_step env cfg s s'"
  unfolding comment_step_def by blast

lemma comment_stepE:
  assumes "comment_step env cfg s s'"
  obtains cs evs where "posts_data s' = posts_data s" "comments_data s' = comments_data s @ cs"
    "trace s' = trace s @ evs"
    "list_all (\<lambda>c. is_in_date_range env cfg (ci_created_utc c) = Inr True) cs"
    "search_requests evs = []" "searched evs = []"
  using assms unfolding comment_step_def by blast

lemma forum_stepI:
  "posts_data s' = posts_data s @ ps \<Longrightarrow> comments_data s' = comments_data s @ cs \<Longrightarrow>
   trace s' = trace s @ evs \<Longrightarrow>
   list_all (\<lambda>p. is_in_date_range env cfg (pi_created_utc p) = Inr True) ps \<Longrightarrow>
   list_all (\<lambda>c. is_in_date_range env cfg (ci_created_utc c) = Inr True) cs \<Longrightarrow>
   searched evs = [] \<Longrightarrow> forum_step env cfg s s'"
  unfolding forum_step_def by blast

lemma forum_stepE:
  assumes "forum_step env cfg s s'"
  obtains ps cs evs where "posts_data s' = posts_data s @ ps"
    "comments_data s' = comments_data s @ cs" "trace s' = trace s @ evs"
    "list_all (\<lambda>p. is_in_date_range env cfg (pi_created_utc p) = Inr True) ps"
    "list_all (\<lambda>c. is_in_date_range env cfg (ci_created_utc c) = Inr True) cs"
    "searched evs = []"
  using assms unfolding forum_step_def by blast

lemma comment_step_refl [simp]: "comment_step env cfg s s"
  by (rule comment_stepI [where cs = "[]" and evs = "[]"]) simp_all

lemma comment_step_trans:
  assumes "comment_step env cfg s s1" "comment_step env cfg s1 s2"
  shows "comment_step env cfg s s2"
proof -
  from assms(1) obtain c1 e1 where a: "posts_data s1 = posts_data s"
    "comments_data s1 = comments_data s @ c1" "trace s1 = trace s @ e1"
    "list_all (\<lambda>c. is_in_date_range env cfg (ci_created_utc c) = Inr True) c1"
    "search_requests e1 = []" "searched e1 = []"
    by (rule comment_stepE)
  from assms(2) obtain c2 e2 where b: "posts_data s2 = posts_data s1"
    "comments_data s2 = comments_data s1 @ c2" "trace s2 = trace s1 @ e2"
    "list_all (\<lambda>c. is_in_date_range env cfg (ci_created_utc c) = Inr True) c2"
    "search_requests e2 = []" "searched e2 = []"
    by (rule comment_stepE)
  show ?thesis
    by (rule comment_stepI [where cs = "c1 @ c2" and evs = "e1 @ e2"]) (simp_all add: a b)
qed

lemma forum_step_refl [simp]: "forum_step env cfg s s"
  by (rule forum_stepI [where ps = "[]" and cs = "[]" and evs = "[]"]) simp_all

lemma forum_step_trans:
  assumes "forum_step env cfg s s1" "forum_step env cfg s1 s2"
  shows "forum_step env cfg s s2"
proof -
  from assms(1) obtain p1 c1 e1 where a: "posts_data s1 = posts_data s @ p1"
    "comments_data s1 = comments_data s @ c1" "trace s1 = trace s @ e1"
    "list_all (\<lambda>p. is_in_date_range env cfg (pi_created_utc p) = Inr True) p1"
    "list_all (\<lambda>c. is_in_date_range env cfg (ci_created_utc c) = Inr True) c1"
    "searched e1 = []"
    by (rule forum_stepE)
  from assms(2) obtain p2 c2 e2 where b: "posts_data s2 = posts_data s1 @ p2"
    "comments_data s2 = comments_data s1 @ c2" "trace s2 = trace s1 @ e2"
    "list_all (\<lambda>p. is_in_date_range env cfg (pi_created_utc p) = Inr True) p2"
    "list_all (\<lambda>c. is_in_date_range env cfg (ci_created_utc c) = Inr True) c2"
    "searched e2 = []"
    by (rule forum_stepE)
  show ?thesis
    by (rule forum_stepI [where ps = "p1 @ p2" and cs = "c1 @ c2" and evs = "e1 @ e2"])
       (simp_all add: a b)
qed

lemma comment_step_forum_step:
  assumes "comment_step env cfg s s'"
  shows "forum_step env cfg s s'"
proof -
  from assms obtain cs evs where a: "posts_data s' = posts_data s"
    "comments_data s' = comments_data s @ cs" "trace s' = trace s @ evs"
    "list_all (\<lambda>c. is_in_date_range env cfg (ci_created_utc c) = Inr True) cs"
    "search_requests evs = []" "searched evs = []"
    by (rule comment_stepE)
  show ?thesis
    by (rule forum_stepI [where ps = "[]" and cs = cs and evs = evs]) (simp_all add: a)
qed

lemma appends_comments_step:
  assumes "appends_comments env cfg s s'"
  shows "comment_step env cfg s s'"
proof -
  from assms obtain new where n: "s' = s\<lparr>comments_data := comments_data s @ new\<rparr>"
    "list_all (\<lambda>c. is_in_date_range env cfg (ci_created_utc c) = Inr True) new"
    unfolding appends_comments_def by blast
  show ?thesis
    by (rule comment_stepI [where cs = new and evs = "[]"]) (simp_all add: n)
qed

lemma emit_comment_step:
  "search_requests [ev] = [] \<Longrightarrow> searched [ev] = [] \<Longrightarrow> comment_step env cfg s (emit ev s)"
  by (rule comment_stepI [where cs = "[]" and evs = "[ev]"]) simp_all

lemma make_request_comment_step:
  "comment_step env cfg s (snd (make_request env cfg (CommentsOf p) ps s))"
proof (cases "fst (respond env (world s) (CommentsOf p, ps))")
  case RequestFailed
  show ?thesis
    by (rule comment_stepI [where cs = "[]"
          and evs = "[Get (CommentsOf p) ps, Print RequestFailedMsg]"])
       (simp_all add: make_request_def Let_def split_beta RequestFailed)
next
  case (JsonBody j)
  show ?thesis
    by (rule comment_stepI [where cs = "[]"
          and evs = "[Get (CommentsOf p) ps, Sleep (request_delay cfg)]"])
       (simp_all add: make_request_def Let_def split_beta JsonBody)
next
  case BadBody
  show ?thesis
    by (rule comment_stepI [where cs = "[]"
          and evs = "[Get (CommentsOf p) ps, Sleep (request_delay cfg), Print RequestFailedMsg]"])
       (simp_all add: make_request_def Let_def split_beta BadBody)
qed

lemma extract_comments_appends:
  "extract_comments_recursive env cfg fr listing pid sr s = (r, s') \<Longrightarrow>
     appends_comments env cfg s s'"
proof (cases fr)
  case 0
  assume "extract_comments_recursive env cfg fr listing pid sr s = (r, s')"
  with 0 show ?thesis by (simp add: extract_comments_recursive_def)
next
  case (Suc d)
  assume a: "extract_comments_recursive env cfg fr listing pid sr s = (r, s')"
  show ?thesis
  proof (cases "py_iter listing")
    case (Inl e)
    with a Suc show ?thesis by (simp add: extract_comments_recursive_def)
  next
    case (Inr items)
    with a Suc have "walk env cfg d items pid sr s = (r, s')"
      by (simp add: extract_comments_recursive_def)
    then show ?thesis by (rule walk_appends)
  qed
qed

lemma fetch_comments_step: "comment_step env cfg s (fetch_comments env cfg p pid sr s)"
proof -
  let ?m = "make_request env cfg (CommentsOf p) None s"
  let ?s1 = "snd ?m"
  have m: "comment_step env cfg s ?s1" by (rule make_request_comment_step)
  have e: "\<And>e t. comment_step env cfg t (emit (Print (CommentsError e)) t)"
    by (rule emit_comment_step) simp_all
  show ?thesis
  proof (cases "comments_listing (fst ?m)")
    case (Inl e1)
    then have "fetch_comments env cfg p pid sr s = emit (Print (CommentsError e1)) ?s1"
      by (simp add: fetch_comments_def split_beta)
    with comment_step_trans [OF m e] show ?thesis by simp
  next
    case (Inr l)
    show ?thesis
    proof (cases l)
      case None
      with Inr have "fetch_comments env cfg p pid sr s = ?s1"
        by (simp add: fetch_comments_def split_beta)
      with m show ?thesis by simp
    next
      case (Some listing)
      obtain r s2 where x: "extract_comments_recursive env cfg (frames env) listing pid sr ?s1 = (r, s2)"
        by (cases "extract_comments_recursive env cfg (frames env) listing pid sr ?s1")
      have w: "comment_step env cfg ?s1 s2"
        by (rule appends_comments_step [OF extract_comments_appends [OF x]])
      have ms2: "comment_step env cfg s s2" by (rule comment_step_trans [OF m w])
      show ?thesis
      proof (cases r)
        case (Inl e2)
        with Inr Some x have "fetch_comments env cfg p pid sr s = emit (Print (CommentsError e2)) s2"
          by (simp add: fetch_comments_def split_beta)
        with comment_step_trans [OF ms2 e] show ?thesis by simp
      next
        case (Inr u)
        with \<open>comments_listing (fst ?m) = Inr l\<close> Some x
        have "fetch_comments env cfg p pid sr s = s2"
          by (simp add: fetch_comments_def split_beta)
        with ms2 show ?thesis by simp
      qed
    qed
  qed
qed

lemma post_info_created:
  "post_info_of env post = Inr info \<Longrightarrow> py_getitem post ''created_utc'' = Inr (pi_created_utc info)"
  unfolding post_info_of_def by (auto dest!: then_exn_Inr)

text \<open>One entry of a page: nothing is appended, or one post inside the window and
  then the comments fetched for it.\<close>

lemma process_post_cases:
  assumes "process_post env cfg x c s = (r, s')"
  shows "(s' = s \<and> (r = Inr c \<or> (\<exists>e. r = Inl e))) \<or>
     (\<exists>info. post_info_at env x = Inr info \<and>
        is_in_date_range env cfg (pi_created_utc info) = Inr True \<and>
        comment_step env cfg (s\<lparr>posts_data := posts_data s @ [info]\<rparr>) s' \<and>
        (r = Inr (c + 1) \<or> (\<exists>e. r = Inl e)))"
proof (cases "py_getitem x ''data''")
  case (Inl e)
  with assms show ?thesis by (auto simp: process_post_def)
next
  case post: (Inr post)
  show ?thesis
  proof (cases "py_getitem post ''created_utc''")
    case (Inl e)
    with assms post show ?thesis by (auto simp: process_post_def)
  next
    case ts: (Inr ts)
    show ?thesis
    proof (cases "is_in_date_range env cfg ts")
      case (Inl e)
      with assms post ts show ?thesis by (auto simp: process_post_def)
    next
      case inside: (Inr inside)
      show ?thesis
      proof (cases inside)
        case False
        with assms post ts inside show ?thesis by (auto simp: process_post_def)
      next
        case True
        show ?thesis
        proof (cases "post_info_of env post")
          case (Inl e)
          with assms post ts inside True show ?thesis by (auto simp: process_post_def)
        next
          case info: (Inr info)
          let ?s1 = "s\<lparr>posts_data := posts_data s @ [info]\<rparr>"
          have w: "is_in_date_range env cfg (pi_created_utc info) = Inr True"
            using post_info_created [OF info] ts inside True by simp
          have at: "post_info_at env x = Inr info"
            by (simp add: post_info_at_def post info)
          have "comment_step env cfg ?s1 s' \<and> (r = Inr (c + 1) \<or> (\<exists>e. r = Inl e))"
            using assms post ts inside True info fetch_comments_step [where env = env and cfg = cfg and s = ?s1]
            by (auto simp: process_post_def Let_def raise_or_def split: sum.splits if_splits)
          with w at show ?thesis by blast
        qed
      qed
    qed
  qed
qed

lemma make_request_forum_step:
  "forum_step env cfg s (snd (make_request env cfg u ps s))"
proof (cases "fst (respond env (world s) (u, ps))")
  case RequestFailed
  show ?thesis
    by (rule forum_stepI [where ps = "[]" and cs = "[]"
          and evs = "[Get u ps, Print RequestFailedMsg]"])
       (simp_all add: make_request_def Let_def split_beta RequestFailed)
next
  case (JsonBody j)
  show ?thesis
    by (rule forum_stepI [where ps = "[]" and cs = "[]"
          and evs = "[Get u ps, Sleep (request_delay cfg)]"])
       (simp_all add: make_request_def Let_def split_beta JsonBody)
next
  case BadBody
  show ?thesis
    by (rule forum_stepI [where ps = "[]" and cs = "[]"
          and evs = "[Get u ps, Sleep (request_delay cfg), Print RequestFailedMsg]"])
       (simp_all add: make_request_def Let_def split_beta BadBody)
qed

lemma emit_forum_step: "searched [ev] = [] \<Longrightarrow> forum_step env cfg s (emit ev s)"
  by (rule forum_stepI [where ps = "[]" and cs = "[]" and evs = "[ev]"]) simp_all

lemma process_post_step:
  assumes "process_post env cfg x c s = (r, s')"
  shows "forum_step env cfg s s' \<and>
     (length (posts_data s') = length (posts_data s) \<and> (r = Inr c \<or> (\<exists>e. r = Inl e)) \<or>
      length (posts_data s') = Suc (length (posts_data s)) \<and>
        (r = Inr (c + 1) \<or> (\<exists>e. r = Inl e)))"
proof -
  from process_post_cases [OF assms] show ?thesis
  proof
    assume "s' = s \<and> (r = Inr c \<or> (\<exists>e. r = Inl e))"
    then show ?thesis by simp
  next
    assume "\<exists>info. post_info_at env x = Inr info \<and>
        is_in_date_range env cfg (pi_created_utc info) = Inr True \<and>
        comment_step env cfg (s\<lparr>posts_data := posts_data s @ [info]\<rparr>) s' \<and>
        (r = Inr (c + 1) \<or> (\<exists>e. r = Inl e))"
    then obtain info where i: "is_in_date_range env cfg (pi_created_utc info) = Inr True"
      "comment_step env cfg (s\<lparr>posts_data := posts_data s @ [info]\<rparr>) s'"
      "r = Inr (c + 1) \<or> (\<exists>e. r = Inl e)" by blast
    let ?s1 = "s\<lparr>posts_data := posts_data s @ [info]\<rparr>"
    have a: "forum_step env cfg s ?s1"
      by (rule forum_stepI [where ps = "[info]" and cs = "[]" and evs = "[]"]) (simp_all add: i)
    have b: "forum_step env cfg ?s1 s'" by (rule comment_step_forum_step [OF i(2)])
    have "posts_data s' = posts_data ?s1" using i(2) by (rule comment_stepE)
    then have "length (posts_data s') = Suc (length (posts_data s))" by simp
    with forum_step_trans [OF a b] i(3) show ?thesis by blast
  qed
qed

lemma process_posts_step:
  "process_posts env cfg items c s = (r, s') \<Longrightarrow>
     forum_step env cfg s s' \<and>
     c + (int (length (posts_data s')) - int (length (posts_data s))) \<le> max c (limit cfg) \<and>
     (\<forall>c'. r = Inr c' \<longrightarrow> c' = c + (int (length (posts_data s')) - int (length (posts_data s))))"
proof (induction items arbitrary: c s)
  case Nil
  then show ?case by auto
next
  case (Cons x rest)
  show ?case
  proof (cases "limit cfg \<le> c")
    case True
    with Cons.prems show ?thesis by auto
  next
    case False
    obtain r1 s1 where p: "process_post env cfg x c s = (r1, s1)"
      by (cases "process_post env cfg x c s")
    from process_post_step [OF p] have f1: "forum_step env cfg s s1"
      and k: "length (posts_data s1) = length (posts_data s) \<and> (r1 = Inr c \<or> (\<exists>e. r1 = Inl e)) \<or>
        length (posts_data s1) = Suc (length (posts_data s)) \<and> (r1 = Inr (c + 1) \<or> (\<exists>e. r1 = Inl e))"
      by simp_all
    from k have n: "length (posts_data s1) = length (posts_data s) \<or>
        length (posts_data s1) = Suc (length (posts_data s))" by blast
    show ?thesis
    proof (cases r1)
      case (Inl e)
      with Cons.prems False p have e: "r = Inl e" "s' = s1" by simp_all
      have "c + (int (length (posts_data s1)) - int (length (posts_data s))) \<le> max c (limit cfg)"
        using n False by linarith
      with e f1 show ?thesis by simp
    next
      case (Inr c1)
      with Cons.prems False p have "process_posts env cfg rest c1 s1 = (r, s')" by simp
      from Cons.IH [OF this] have ih: "forum_step env cfg s1 s'"
        "c1 + (int (length (posts_data s')) - int (length (posts_data s1))) \<le> max c1 (limit cfg)"
        "\<forall>c'. r = Inr c' \<longrightarrow> c' = c1 + (int (length (posts_data s')) - int (length (posts_data s1)))"
        by simp_all
      from k Inr have c1: "c1 = c + (int (length (posts_data s1)) - int (length (posts_data s)))"
        by auto
      from k Inr False have m: "max c1 (limit cfg) = max c (limit cfg)" by auto
      have f: "forum_step env cfg s s'" by (rule forum_step_trans [OF f1 ih(1)])
      have b: "c + (int (length (posts_data s')) - int (length (posts_data s))) \<le> max c (limit cfg)"
        using ih(2) c1 m by linarith
      have r: "\<forall>c'. r = Inr c' \<longrightarrow> c' = c + (int (length (posts_data s')) - int (length (posts_data s)))"
        using ih(3) c1 by auto
      from f b r show ?thesis by blast
    qed
  qed
qed

lemma search_pages_step:
  "search_pages n env cfg u ps c cursor s = Some (r, s') \<Longrightarrow>
     forum_step env cfg s s' \<and>
     c + (int (length (posts_data s')) - int (length (posts_data s))) \<le> max c (limit cfg)"
proof (induction n arbitrary: ps c cursor s)
  case 0
  then show ?case by (auto split: if_splits)
next
  case (Suc n)
  show ?case
  proof (cases "c < limit cfg")
    case False
    with Suc.prems show ?thesis by auto
  next
    case True
    let ?ps1 = "if truthy cursor then ps\<lparr>param_after := Some cursor\<rparr> else ps"
    let ?m = "make_request env cfg u (Some ?ps1) s"
    let ?s1 = "snd ?m"
    have m: "forum_step env cfg s ?s1" by (rule make_request_forum_step)
    have l1: "length (posts_data ?s1) = length (posts_data s)" by simp
    note tr = forum_step_trans
    let ?G = "forum_step env cfg s s' \<and>
       c + (int (length (posts_data s')) - int (length (posts_data s))) \<le> max c (limit cfg)"
    have done1: "\<And>ev. searched [ev] = [] \<Longrightarrow> s' = emit ev ?s1 \<Longrightarrow> ?G"
    proof -
      fix ev assume "searched [ev] = []" "s' = emit ev ?s1"
      then have "forum_step env cfg s s'" using tr [OF m emit_forum_step] by simp
      moreover have "length (posts_data s') = length (posts_data s)"
        using \<open>s' = emit ev ?s1\<close> by simp
      ultimately show ?G by simp
    qed
    have done0: "s' = ?s1 \<Longrightarrow> ?G"
      using m l1 by simp
    from Suc.prems True have unfold:
      "(case page_of (fst ?m) of
          Inl e \<Rightarrow> Some (Inl e, ?s1)
        | Inr None \<Rightarrow> Some (Inr (), emit (Print NoData) ?s1)
        | Inr (Some (listing, posts)) \<Rightarrow>
            if \<not> truthy posts then Some (Inr (), emit (Print NoMorePosts) ?s1)
            else
              (case py_iter posts of
                 Inl e \<Rightarrow> Some (Inl e, ?s1)
               | Inr items \<Rightarrow>
                   (case process_posts env cfg items c ?s1 of
                      (Inl e, s2) \<Rightarrow> Some (Inl e, s2)
                    | (Inr c2, s2) \<Rightarrow>
                        (case py_get listing ''after'' JNull of
                           Inl e \<Rightarrow> Some (Inl e, s2)
                         | Inr next_cursor \<Rightarrow>
                             if \<not> truthy next_cursor
                             then Some (Inr (), emit (Print LastPage) s2)
                             else search_pages n env cfg u ?ps1 c2 next_cursor s2)))) = Some (r, s')"
      by (simp add: Let_def split_beta)
    show ?thesis
    proof (cases "page_of (fst ?m)")
      case (Inl e)
      with unfold have "s' = ?s1" by simp
      then show ?thesis by (rule done0)
    next
      case (Inr pg)
      show ?thesis
      proof (cases pg)
        case None
        with Inr unfold have "s' = emit (Print NoData) ?s1" by simp
        then show ?thesis by (intro done1) simp_all
      next
        case (Some lp)
        obtain listing posts where lp: "lp = (listing, posts)" by (cases lp)
        show ?thesis
        proof (cases "truthy posts")
          case False
          with Inr Some lp unfold have "s' = emit (Print NoMorePosts) ?s1" by simp
          then show ?thesis by (intro done1) simp_all
        next
          case tp: True
          show ?thesis
          proof (cases "py_iter posts")
            case (Inl e)
            with Inr Some lp tp unfold have "s' = ?s1" by simp
            then show ?thesis by (rule done0)
          next
            case items: (Inr items)
            obtain r2 s2 where pp: "process_posts env cfg items c ?s1 = (r2, s2)"
              by (cases "process_posts env cfg items c ?s1")
            from process_posts_step [OF pp] have f2: "forum_step env cfg ?s1 s2"
              and b2: "c + (int (length (posts_data s2)) - int (length (posts_data ?s1))) \<le> max c (limit cfg)"
              and c2: "\<forall>c'. r2 = Inr c' \<longrightarrow> c' = c + (int (length (posts_data s2)) - int (length (posts_data ?s1)))"
              by simp_all
            have f02: "forum_step env cfg s s2" by (rule tr [OF m f2])
            have b02: "c + (int (length (posts_data s2)) - int (length (posts_data s))) \<le> max c (limit cfg)"
              using b2 l1 by simp
            have done2: "s' = s2 \<Longrightarrow> ?G" using f02 b02 by simp
            have done3: "\<And>ev. searched [ev] = [] \<Longrightarrow> s' = emit ev s2 \<Longrightarrow> ?G"
            proof -
              fix ev assume "searched [ev] = []" "s' = emit ev s2"
              then have "forum_step env cfg s s'" using tr [OF f02 emit_forum_step] by simp
              moreover have "length (posts_data s') = length (posts_data s2)"
                using \<open>s' = emit ev s2\<close> by simp
              ultimately show ?G using b02 by simp
            qed
            show ?thesis
            proof (cases r2)
              case (Inl e)
              with Inr Some lp tp items pp unfold have "s' = s2" by simp
              then show ?thesis by (rule done2)
            next
              case cnt: (Inr cnt)
              show ?thesis
              proof (cases "py_get listing ''after'' JNull")
                case (Inl e)
                with Inr Some lp tp items pp cnt unfold have "s' = s2" by simp
                then show ?thesis by (rule done2)
              next
                case nc: (Inr nc)
                show ?thesis
                proof (cases "truthy nc")
                  case False
                  with Inr Some lp tp items pp cnt nc unfold
                  have "s' = emit (Print LastPage) s2" by simp
                  then show ?thesis by (intro done3) simp_all
                next
                  case True
                  with Inr Some lp tp items pp cnt nc unfold
                  have "search_pages n env cfg u ?ps1 cnt nc s2 = Some (r, s')" by simp
                  from Suc.IH [OF this] have f3: "forum_step env cfg s2 s'"
                    and b3: "cnt + (int (length (posts_data s')) - int (length (posts_data s2))) \<le> max cnt (limit cfg)"
                    by simp_all
                  from c2 cnt have ce: "cnt = c + (int (length (posts_data s2)) - int (length (posts_data s)))"
                    using l1 by simp
                  have f: "forum_step env cfg s s'" by (rule tr [OF f02 f3])
                  from f02 have "length (posts_data s) \<le> length (posts_data s2)"
                    by (elim forum_stepE) simp
                  with ce have "c \<le> cnt" by simp
                  with b02 ce have "max cnt (limit cfg) \<le> max c (limit cfg)" by simp
                  with b3 ce have "c + (int (length (posts_data s')) - int (length (posts_data s))) \<le> max c (limit cfg)"
                    by linarith
                  with f show ?thesis by simp
                qed
              qed
            qed
          qed
        qed
      qed
    qed
  qed
qed

lemma search_subreddit_step:
  assumes "search_subreddit n env cfg name query s = Some (r, s')"
  shows "forum_step env cfg s s'"
    and "int (length (posts_data s')) - int (length (posts_data s)) \<le> max 0 (limit cfg)"
  using search_pages_step [OF assms [unfolded search_subreddit_def Let_def]] by simp_all

lemma forum_step_windowed:
  assumes "forum_step env cfg s s'" "windowed env cfg s"
  shows "windowed env cfg s'"
  using assms(1)
proof (rule forum_stepE)
  fix ps cs evs
  assume "posts_data s' = posts_data s @ ps" "comments_data s' = comments_data s @ cs"
    "list_all (\<lambda>p. is_in_date_range env cfg (pi_created_utc p) = Inr True) ps"
    "list_all (\<lambda>c. is_in_date_range env cfg (ci_created_utc c) = Inr True) cs"
  with assms(2) show ?thesis by (simp add: windowed_def)
qed

lemma forum_step_keeps:
  assumes "forum_step env cfg s s'"
  shows "prefix (posts_data s) (posts_data s')" "prefix (comments_data s) (comments_data s')"
    "searched (trace s') = searched (trace s)"
  using assms by (auto elim!: forum_stepE)

lemma emit_windowed [simp]: "windowed env cfg (emit ev s) = windowed env cfg s"
  by (simp add: windowed_def)

lemma search_forums_run:
  "search_forums n env cfg forums query s = Some s' \<Longrightarrow>
     (windowed env cfg s \<longrightarrow> windowed env cfg s') \<and>
     prefix (posts_data s) (posts_data s') \<and> prefix (comments_data s) (comments_data s') \<and>
     searched (trace s') = searched (trace s) @ forums"
proof (induction forums arbitrary: s)
  case Nil
  then show ?case by simp
next
  case (Cons name rest)
  let ?s0 = "emit (Print (Searching name)) s"
  from Cons.prems obtain r s1 where
    f: "search_subreddit n env cfg name query ?s0 = Some (r, s1)"
    by (cases "search_subreddit n env cfg name query ?s0") auto
  note st = search_subreddit_step(1) [OF f]
  note k = forum_step_keeps [OF st]
  let ?s2 = "case r of Inl e \<Rightarrow> emit (Print (SearchError name e)) s1 | Inr u \<Rightarrow> s1"
  from Cons.prems f have rest: "search_forums n env cfg rest query ?s2 = Some s'"
    by (cases r) simp_all
  have w2: "windowed env cfg ?s2 = windowed env cfg s1" by (cases r) simp_all
  have p2: "posts_data ?s2 = posts_data s1" "comments_data ?s2 = comments_data s1"
    "searched (trace ?s2) = searched (trace s1)" by (cases r; simp)+
  from Cons.IH [OF rest] have ih: "windowed env cfg ?s2 \<longrightarrow> windowed env cfg s'"
    "prefix (posts_data ?s2) (posts_data s')" "prefix (comments_data ?s2) (comments_data s')"
    "searched (trace s') = searched (trace ?s2) @ rest" by simp_all
  have a: "windowed env cfg s \<longrightarrow> windowed env cfg s'"
    using forum_step_windowed [OF st] ih(1) w2 by simp
  have b: "prefix (posts_data s) (posts_data s')"
    using k(1) ih(2) p2(1) by (metis emit_fields(1) prefix_order.order_trans)
  have c: "prefix (comments_data s) (comments_data s')"
    using k(2) ih(3) p2(2) by (metis emit_fields(2) prefix_order.order_trans)
  have d: "searched (trace s') = searched (trace s) @ name # rest"
    using k(3) ih(4) p2(3) by simp
  from a b c d show ?case by simp
qed

lemma search_posts_run:
  assumes "search_posts n env cfg s = Some s'"
  shows "windowed env cfg s \<longrightarrow> windowed env cfg s'"
    and "prefix (posts_data s) (posts_data s')"
    and "prefix (comments_data s) (comments_data s')"
    and "searched (trace s') = searched (trace s) @ subreddits cfg"
proof -
  let ?q = "brand cfg @ '' '' @ product cfg"
  let ?s0 = "emit (Print (TimeRange (start_date cfg) (end_date cfg)))
               (emit (Print (SearchQuery ?q)) s)"
  from assms obtain s1 where f: "search_forums n env cfg (subreddits cfg) ?q ?s0 = Some s1"
    and e: "s' = emit (Print (CollectedComments (length (comments_data s1))))
                  (emit (Print (FoundPosts (length (posts_data s1)))) s1)"
    by (auto simp: search_posts_def Let_def split: option.splits)
  note r = search_forums_run [OF f]
  from r e show "windowed env cfg s \<longrightarrow> windowed env cfg s'" by simp
  from r e show "prefix (posts_data s) (posts_data s')" by simp
  from r e show "prefix (comments_data s) (comments_data s')" by simp
  from r e show "searched (trace s') = searched (trace s) @ subreddits cfg" by simp
qed

lemma in_range_inside_window:
  "is_in_date_range env (new_crawler b p start_day end_day subs per_forum) created = Inr True
     \<Longrightarrow> inside_window env start_day end_day created"
  by (auto simp: is_in_date_range_def fromtimestamp_def inside_window_def new_crawler_def
      strptime_dmy_def split: option.splits if_splits)



subsection \<open>A run against the sample server\<close>

lemma broken_raises:
  "search_subreddit 3 sample_site two_forums ''broken'' ''acme phone''
     (emit (Print (Searching ''broken'')) (new_state 0)) = Some (Inl KeyError, after_broken)"
  by code_simp

lemma forums_run:
  "search_forums 3 sample_site two_forums [''broken'', ''gadgets''] ''acme phone'' (new_state 0) =
     Some after_run"
  by code_simp

lemma posts_run:
  "search_posts 3 sample_site (new_crawler ''acme'' ''phone'' 10 20 [''broken'', ''gadgets''] 150)
     (new_state 0) =
   Some (emit (Print (CollectedComments 1)) (emit (Print (FoundPosts 2))
     (after_run\<lparr>trace := [Print (SearchQuery ''acme phone''), Print (TimeRange 864000 1728000)]
        @ trace after_run\<rparr>)))"
  by code_simp




end
